theory Spec2Isabelle
  imports
    Main
    "HOL-Library.Multiset"
    "HOL-Library.Char_ord"
    "HOL-Library.List_Lexorder"
    "HOL-Library.Product_Lexorder"
begin

section \<open>JSON-like values and Python's printing of them\<close>

text \<open>
  The values that flow through the engine are the JSON-like values of Python: \<open>None\<close>,
  booleans, integers, strings, lists and dictionaries with string keys.  A Python \<open>str\<close>
  is modelled as a \<^typ>\<open>string\<close> whose characters are the code points below 256; Python
  compares strings code point by code point, which is the lexicographic order on
  \<^typ>\<open>char list\<close>.  A dictionary keeps its insertion order, so it is an association list;
  a well-formed dictionary has pairwise distinct keys.  Floats are not modelled.
\<close>

datatype json =
    JNull
  | JBool bool
  | JInt int
  | JStr string
  | JList "json list"
  | JDict "(string \<times> json) list"

type_synonym dict = "(string \<times> json) list"

definition digit_char :: "nat \<Rightarrow> char" where
  "digit_char n = ''0123456789'' ! n"

function str_nat :: "nat \<Rightarrow> string" where
  "str_nat n = (if n < 10 then [digit_char n] else str_nat (n div 10) @ [digit_char (n mod 10)])"
  by pat_completeness auto
termination
  by (relation "measure (\<lambda>n. n)") auto

declare str_nat.simps [simp del]

definition str_int :: "int \<Rightarrow> string" where
  "str_int i = (if i < 0 then CHR ''-'' # str_nat (nat (- i)) else str_nat (nat i))"

definition hex_char :: "nat \<Rightarrow> char" where
  "hex_char n = ''0123456789abcdef'' ! n"

definition hex2 :: "char \<Rightarrow> string" where
  "hex2 c = [hex_char (of_char c div 16), hex_char (of_char c mod 16)]"

text \<open>
  \<open>repr\<close> of a Python string: the quote is \<open>"\<close> when the string holds a \<open>'\<close> and no
  \<open>"\<close>, and \<open>'\<close> otherwise; the quote and the backslash are escaped, tab, newline and
  carriage return have their letters, and the other unprintable code points are written
  \<open>\xhh\<close>.
\<close>

definition py_printable :: "char \<Rightarrow> bool" where
  "py_printable c =
     (let n = (of_char c :: nat)
      in (32 \<le> n \<and> n < 127) \<or> (161 \<le> n \<and> n \<noteq> 173))"

definition repr_char :: "char \<Rightarrow> char \<Rightarrow> string" where
  "repr_char q c =
     (if c = q \<or> c = CHR 0x5C then [CHR 0x5C, c]
      else if c = CHR 0x09 then [CHR 0x5C, CHR ''t'']
      else if c = CHR 0x0A then [CHR 0x5C, CHR ''n'']
      else if c = CHR 0x0D then [CHR 0x5C, CHR ''r'']
      else if py_printable c then [c]
      else CHR 0x5C # CHR ''x'' # hex2 c)"

definition repr_quote :: "string \<Rightarrow> char" where
  "repr_quote s = (if CHR 0x27 \<in> set s \<and> CHR 0x22 \<notin> set s then CHR 0x22 else CHR 0x27)"

definition repr_str :: "string \<Rightarrow> string" where
  "repr_str s = (let q = repr_quote s in q # concat (map (repr_char q) s) @ [q])"

fun join :: "string \<Rightarrow> string list \<Rightarrow> string" where
  "join sep [] = []"
| "join sep [x] = x"
| "join sep (x # y # ys) = x @ sep @ join sep (y # ys)"

fun py_repr :: "json \<Rightarrow> string" where
  "py_repr JNull = ''None''"
| "py_repr (JBool b) = (if b then ''True'' else ''False'')"
| "py_repr (JInt i) = str_int i"
| "py_repr (JStr s) = repr_str s"
| "py_repr (JList xs) = ''['' @ join '', '' (map py_repr xs) @ '']''"
| "py_repr (JDict kvs) =
     ''{'' @ join '', '' (map (\<lambda>(k, v). repr_str k @ '': '' @ py_repr v) kvs) @ ''}''"

text \<open>\<open>str(x)\<close>: a string is itself, every other value is its \<open>repr\<close>.\<close>

fun py_str :: "json \<Rightarrow> string" where
  "py_str (JStr s) = s"
| "py_str v = py_repr v"

subsection \<open>\<open>json.dumps(data, sort_keys=True, separators=(',', ':'))\<close>\<close>

text \<open>
  The encoder's defaults stay in force, so \<open>ensure_ascii\<close> holds: every code point outside
  \<open>' '..'~'\<close> is escaped, as well as the double quote and the backslash.
\<close>

definition json_escape_char :: "char \<Rightarrow> string" where
  "json_escape_char c =
     (if c = CHR 0x22 then [CHR 0x5C, CHR 0x22]
      else if c = CHR 0x5C then [CHR 0x5C, CHR 0x5C]
      else if c = CHR 0x0A then [CHR 0x5C, CHR ''n'']
      else if c = CHR 0x0D then [CHR 0x5C, CHR ''r'']
      else if c = CHR 0x09 then [CHR 0x5C, CHR ''t'']
      else if c = CHR 0x08 then [CHR 0x5C, CHR ''b'']
      else if c = CHR 0x0C then [CHR 0x5C, CHR ''f'']
      else if 32 \<le> (of_char c :: nat) \<and> (of_char c :: nat) < 127 then [c]
      else CHR 0x5C # CHR ''u'' # CHR ''0'' # CHR ''0'' # hex2 c)"

definition json_string :: "string \<Rightarrow> string" where
  "json_string s = CHR 0x22 # concat (map json_escape_char s) @ [CHR 0x22]"

lemma size_dict_value [termination_simp]:
  "(k, v) \<in> set kvs \<Longrightarrow> size v < Suc (size_list (size_prod (\<lambda>_. 0) size) kvs)"
  by (induction kvs) auto

fun json_dumps :: "json \<Rightarrow> string" where
  "json_dumps JNull = ''null''"
| "json_dumps (JBool b) = (if b then ''true'' else ''false'')"
| "json_dumps (JInt i) = str_int i"
| "json_dumps (JStr s) = json_string s"
| "json_dumps (JList xs) = ''['' @ join '','' (map json_dumps xs) @ '']''"
| "json_dumps (JDict kvs) =
     ''{'' @ join '','' (map (\<lambda>(k, v). json_string k @ '':'' @ json_dumps v) (sort_key fst kvs))
       @ ''}''"


section \<open>Canonicalizer (\<open>app/core/canonicalize.py\<close>)\<close>

text \<open>
  The sort key of a list element: \<open>x.get('id') if isinstance(x, dict) and 'id' in x else str(x)\<close>.
  The key is a Python value: the value stored under \<open>id\<close>, whatever its type, or a string.
\<close>

fun list_sort_key :: "json \<Rightarrow> json" where
  "list_sort_key (JDict kvs) =
     (case map_of kvs ''id'' of Some v \<Rightarrow> v | None \<Rightarrow> JStr (py_str (JDict kvs)))"
| "list_sort_key v = JStr (py_str v)"

datatype py_error = TypeError | AttributeError

fun key_is_str :: "json \<Rightarrow> bool" where
  "key_is_str (JStr s) = True"
| "key_is_str v = False"

fun key_is_num :: "json \<Rightarrow> bool" where
  "key_is_num (JInt i) = True"
| "key_is_num (JBool b) = True"
| "key_is_num v = False"

fun key_str :: "json \<Rightarrow> string" where
  "key_str (JStr s) = s"
| "key_str v = []"

fun key_num :: "json \<Rightarrow> int" where
  "key_num (JInt i) = i"
| "key_num (JBool b) = (if b then 1 else 0)"
| "key_num v = 0"

text \<open>
  \<open>==\<close> between two values: numbers and booleans compare by value, lists element by
  element, dictionaries regardless of the order of their entries.
\<close>

fun py_eq :: "json \<Rightarrow> json \<Rightarrow> bool" where
  "py_eq (JList xs) w = (case w of JList ys \<Rightarrow> list_all2 py_eq xs ys | _ \<Rightarrow> False)"
| "py_eq (JDict kvs) w =
     (case w of
        JDict kvs' \<Rightarrow>
          length kvs = length kvs' \<and>
          list_all (\<lambda>(k, v). case map_of kvs' k of None \<Rightarrow> False | Some v' \<Rightarrow> py_eq v v') kvs
      | _ \<Rightarrow> False)"
| "py_eq v w =
     (if key_is_num v \<and> key_is_num w then key_num v = key_num w
      else v = w)"

text \<open>
  \<open><\<close> between two values.  Two strings compare, and two numbers (integers and booleans)
  compare.  Two lists compare at the first position where their elements are not \<open>==\<close>;
  a list that is a prefix of the other is the smaller one.  Every other pair raises
  \<open>TypeError\<close>: \<open>None\<close> and dictionaries compare with nothing, and values of different
  kinds do not compare.
\<close>

fun py_lt :: "json \<Rightarrow> json \<Rightarrow> py_error + bool"
  and py_lt_list :: "json list \<Rightarrow> json list \<Rightarrow> py_error + bool" where
  "py_lt (JStr a) (JStr b) = Inr (a < b)"
| "py_lt (JList xs) (JList ys) = py_lt_list xs ys"
| "py_lt v w = (if key_is_num v \<and> key_is_num w then Inr (key_num v < key_num w) else Inl TypeError)"
| "py_lt_list [] ys = Inr (ys \<noteq> [])"
| "py_lt_list (x # xs) [] = Inr False"
| "py_lt_list (x # xs) (y # ys) = (if py_eq x y then py_lt_list xs ys else py_lt x y)"

definition comparable :: "json \<Rightarrow> json \<Rightarrow> bool" where
  "comparable a b = (\<not> isl (py_lt a b) \<and> \<not> isl (py_lt b a))"

fun pairwise_comparable :: "json list \<Rightarrow> bool" where
  "pairwise_comparable [] = True"
| "pairwise_comparable (k # ks) = (list_all (comparable k) ks \<and> pairwise_comparable ks)"

text \<open>
  \<open>sorted(xs, key=f)\<close> is a stable sort that compares the keys with \<open><\<close>: the result
  is in ascending order of the keys, and elements none of whose keys is smaller than the
  other keep their input order.  The sort compares any two elements that end up next to
  each other, and keys that compare with a common key between them compare with each other;
  so the sort raises \<open>TypeError\<close> exactly when two of the keys (at different places of the
  list) do not compare.  A list of at most one element is returned without any comparison.
  \<open>sort_lt\<close> is the stable insertion sort for a given \<open><\<close>.
\<close>

fun insort_lt :: "('a \<Rightarrow> 'a \<Rightarrow> bool) \<Rightarrow> 'a \<Rightarrow> 'a list \<Rightarrow> 'a list" where
  "insort_lt lt x [] = [x]"
| "insort_lt lt x (y # ys) = (if lt y x then y # insort_lt lt x ys else x # y # ys)"

definition sort_lt :: "('a \<Rightarrow> 'a \<Rightarrow> bool) \<Rightarrow> 'a list \<Rightarrow> 'a list" where
  "sort_lt lt xs = foldr (insort_lt lt) xs []"

definition py_sorted :: "(json \<Rightarrow> json) \<Rightarrow> json list \<Rightarrow> py_error + json list" where
  "py_sorted f xs =
     (if pairwise_comparable (map f xs)
      then Inr (sort_lt (\<lambda>x y. py_lt (f x) (f y) = Inr True) xs)
      else Inl TypeError)"

fun sort_lists_in_plan :: "json \<Rightarrow> json" where
  "sort_lists_in_plan (JDict kvs) =
     JDict (map (\<lambda>(k, v). (k, sort_lists_in_plan v)) (sort_key fst kvs))"
| "sort_lists_in_plan (JList xs) =
     (let sorted_list = map sort_lists_in_plan xs
      in case py_sorted list_sort_key sorted_list of
           Inr ys \<Rightarrow> JList ys
         | Inl err \<Rightarrow> JList (sort_key py_str sorted_list))"
| "sort_lists_in_plan v = v"

definition canonicalize_json :: "json \<Rightarrow> string" where
  "canonicalize_json data = (let sorted_data = sort_lists_in_plan data in json_dumps sorted_data)"

section \<open>Plans (\<open>app/db/schemas.py\<close>)\<close>

record resource =
  res_id :: string
  res_type :: string
  res_name :: string
  res_description :: "string option"
  res_properties :: dict

record component =
  comp_id :: string
  comp_name :: string
  comp_type :: string
  comp_path :: string
  comp_resources :: "resource list"
  comp_dependencies :: "string list"

record relationship =
  rel_source :: string
  rel_target :: string
  rel_type :: string
  rel_metadata :: dict

record plan =
  schema_version :: string
  project_name :: string
  components :: "component list"
  relationships :: "relationship list"
  env_vars :: "(string \<times> string) list"

text \<open>\<open>model_dump()\<close>: each model becomes a dictionary of its fields, in declaration order.\<close>

definition dump_resource :: "resource \<Rightarrow> json" where
  "dump_resource r = JDict
     [(''id'', JStr (res_id r)),
      (''type'', JStr (res_type r)),
      (''name'', JStr (res_name r)),
      (''description'', (case res_description r of None \<Rightarrow> JNull | Some d \<Rightarrow> JStr d)),
      (''properties'', JDict (res_properties r))]"

definition dump_component :: "component \<Rightarrow> json" where
  "dump_component c = JDict
     [(''id'', JStr (comp_id c)),
      (''name'', JStr (comp_name c)),
      (''type'', JStr (comp_type c)),
      (''path'', JStr (comp_path c)),
      (''resources'', JList (map dump_resource (comp_resources c))),
      (''dependencies'', JList (map JStr (comp_dependencies c)))]"

definition dump_relationship :: "relationship \<Rightarrow> json" where
  "dump_relationship r = JDict
     [(''source'', JStr (rel_source r)),
      (''target'', JStr (rel_target r)),
      (''type'', JStr (rel_type r)),
      (''metadata'', JDict (rel_metadata r))]"

definition model_dump :: "plan \<Rightarrow> json" where
  "model_dump p = JDict
     [(''schema_version'', JStr (schema_version p)),
      (''project_name'', JStr (project_name p)),
      (''components'', JList (map dump_component (components p))),
      (''relationships'', JList (map dump_relationship (relationships p))),
      (''env_vars'', JDict (map (\<lambda>(k, v). (k, JStr v)) (env_vars p)))]"

section \<open>Violations and the DFR (\<open>app/engine/evaluators.py\<close>, \<open>app/engine/dfr.py\<close>)\<close>

record violation =
  rule_id :: string
  message :: string
  offending_node :: string
  v_metadata :: dict





record dfr =
  plan_hash :: string
  engine_version :: string
  passed :: bool
  violations :: "dict list"

definition format_violation :: "violation \<Rightarrow> dict" where
  "format_violation v =
     [(''rule_id'', JStr (rule_id v)),
      (''message'', JStr (message v)),
      (''offending_node'', JStr (offending_node v)),
      (''metadata'', JDict (v_metadata v))]"

text \<open>
  \<open>generate_dfr(plan, violations)\<close>.  \<open>ENGINE_VERSION\<close> is the module constant of
  \<open>app/core/engine_version.py\<close>, fixed when the module is imported by hashing the engine's
  files on disk; it reaches the function from outside, so it is a parameter here.  The
  constant is a string, so \<open>str(ENGINE_VERSION)\<close> is the string itself.  The \<open>timestamp\<close>
  field of the DFR defaults to the wall clock and is left out.
\<close>

definition violation_order :: "violation \<Rightarrow> string \<times> string" where
  "violation_order v = (rule_id v, offending_node v)"

definition plan_hash_text :: "plan \<Rightarrow> string" where
  "plan_hash_text p =
     (let plan_dict = model_dump p;
          sorted_plan = sort_lists_in_plan plan_dict
      in canonicalize_json sorted_plan)"

definition generate_dfr ::
  "string \<Rightarrow> (string \<Rightarrow> string) \<Rightarrow> plan \<Rightarrow> violation list \<Rightarrow> dfr" where
  "generate_dfr ENGINE_VERSION sha256_hex p vs =
     (let canonical_json_raw = plan_hash_text p;
          hash = sha256_hex canonical_json_raw;
          sorted_vs = sort_key violation_order vs;
          formatted_violations = map format_violation sorted_vs
      in \<lparr>plan_hash = hash,
          engine_version = ENGINE_VERSION,
          passed = (length formatted_violations = 0),
          violations = formatted_violations\<rparr>)"


section \<open>Graph (\<open>app/engine/graph.py\<close>)\<close>

text \<open>
  \<open>SystemGraph\<close> wraps a \<open>networkx.MultiDiGraph\<close> and a frozen flag.  The library keeps
  three insertion-ordered dictionaries, modelled as they are: the nodes with their
  attributes, for every node the successors it has an edge to, and for every node the
  predecessors it has an edge from.  The entry of a neighbour holds the parallel edges
  between the two nodes, numbered in the order in which they were added.  Every call of the
  repository passes \<open>type\<close>, \<open>name\<close> and \<open>properties\<close> to \<open>add_node\<close>, and \<open>type\<close> to
  \<open>add_edge\<close>, with or without \<open>metadata\<close>.
\<close>

record node_data =
  n_id :: string
  n_type :: string
  n_name :: string
  n_properties :: dict

record edge_attrs =
  a_type :: string
  a_metadata :: "dict option"

record edge_data =
  e_source :: string
  e_target :: string
  e_type :: string
  e_metadata :: "dict option"

type_synonym adjacency = "(string \<times> edge_attrs list) list"

record system_graph =
  g_nodes :: "node_data list"
  g_succ :: "string \<Rightarrow> adjacency"
  g_pred :: "string \<Rightarrow> adjacency"
  g_frozen :: bool

datatype graph_error = RuntimeError string | ValueError string

definition empty_graph :: system_graph where
  "empty_graph = \<lparr>g_nodes = [], g_succ = (\<lambda>_. []), g_pred = (\<lambda>_. []), g_frozen = False\<rparr>"

definition has_node :: "system_graph \<Rightarrow> string \<Rightarrow> bool" where
  "has_node g i = (i \<in> set (map n_id (g_nodes g)))"

text \<open>\<open>MultiDiGraph.add_node\<close>: a new id is appended, a known id has its attributes updated.\<close>

fun nodes_put :: "node_data list \<Rightarrow> node_data \<Rightarrow> node_data list" where
  "nodes_put [] n = [n]"
| "nodes_put (m # ms) n = (if n_id m = n_id n then n # ms else m # nodes_put ms n)"

text \<open>\<open>MultiDiGraph.add_edge\<close> without a key: the edge joins the entry of its neighbour, after
  the parallel edges already there; a new neighbour is appended.\<close>

fun adj_add :: "adjacency \<Rightarrow> string \<Rightarrow> edge_attrs \<Rightarrow> adjacency" where
  "adj_add [] v a = [(v, [a])]"
| "adj_add ((w, es) # r) v a = (if w = v then (w, es @ [a]) # r else (w, es) # adj_add r v a)"

text \<open>
  A mutator raises or returns; either way the caller still holds the graph object.  The
  result is the exception, if any, together with the graph as the call leaves it.
\<close>

definition add_node ::
  "system_graph \<Rightarrow> string \<Rightarrow> string \<Rightarrow> string \<Rightarrow> dict \<Rightarrow> graph_error option \<times> system_graph" where
  "add_node g i ty nm props =
     (if g_frozen g then (Some (RuntimeError ''Graph is frozen''), g)
      else (None, g\<lparr>g_nodes :=
              nodes_put (g_nodes g) \<lparr>n_id = i, n_type = ty, n_name = nm, n_properties = props\<rparr>\<rparr>))"

definition add_edge ::
  "system_graph \<Rightarrow> string \<Rightarrow> string \<Rightarrow> string \<Rightarrow> dict option \<Rightarrow> graph_error option \<times> system_graph" where
  "add_edge g src tgt ty md =
     (if g_frozen g then (Some (RuntimeError ''Graph is frozen''), g)
      else if \<not> has_node g src then (Some (ValueError (''Source node '' @ src @ '' does not exist'')), g)
      else if \<not> has_node g tgt then (Some (ValueError (''Target node '' @ tgt @ '' does not exist'')), g)
      else (None, g\<lparr>g_succ := (g_succ g)(src := adj_add (g_succ g src) tgt \<lparr>a_type = ty, a_metadata = md\<rparr>),
                     g_pred := (g_pred g)(tgt := adj_add (g_pred g tgt) src \<lparr>a_type = ty, a_metadata = md\<rparr>)\<rparr>))"

definition freeze :: "system_graph \<Rightarrow> system_graph" where
  "freeze g = g\<lparr>g_frozen := True\<rparr>"

definition mk_edge :: "string \<Rightarrow> string \<Rightarrow> edge_attrs \<Rightarrow> edge_data" where
  "mk_edge u v a = \<lparr>e_source = u, e_target = v, e_type = a_type a, e_metadata = a_metadata a\<rparr>"

definition out_edges :: "system_graph \<Rightarrow> string \<Rightarrow> edge_data list" where
  "out_edges g u = concat (map (\<lambda>(v, es). map (mk_edge u v) es) (g_succ g u))"

definition in_edges :: "system_graph \<Rightarrow> string \<Rightarrow> edge_data list" where
  "in_edges g v = concat (map (\<lambda>(u, es). map (mk_edge u v) es) (g_pred g v))"

definition nodes :: "system_graph \<Rightarrow> node_data list" where
  "nodes g = g_nodes g"

definition edges :: "system_graph \<Rightarrow> edge_data list" where
  "edges g = concat (map (\<lambda>n. out_edges g (n_id n)) (g_nodes g))"

definition get_node :: "system_graph \<Rightarrow> string \<Rightarrow> node_data option" where
  "get_node g i = find (\<lambda>n. n_id n = i) (g_nodes g)"

definition find_nodes_by_type :: "system_graph \<Rightarrow> string \<Rightarrow> node_data list" where
  "find_nodes_by_type g ty = filter (\<lambda>n. n_type n = ty) (g_nodes g)"

definition edge_type_ok :: "string option \<Rightarrow> edge_data \<Rightarrow> bool" where
  "edge_type_ok edge_type e = (case edge_type of None \<Rightarrow> True | Some ty \<Rightarrow> e_type e = ty)"

definition find_incoming_edges :: "system_graph \<Rightarrow> string \<Rightarrow> string option \<Rightarrow> edge_data list" where
  "find_incoming_edges g i edge_type =
     (if has_node g i then filter (edge_type_ok edge_type) (in_edges g i) else [])"

definition find_outgoing_edges :: "system_graph \<Rightarrow> string \<Rightarrow> string option \<Rightarrow> edge_data list" where
  "find_outgoing_edges g i edge_type =
     (if has_node g i then filter (edge_type_ok edge_type) (out_edges g i) else [])"

section \<open>Python values in conditions\<close>

text \<open>Truth value of a JSON-like value.\<close>

fun py_truthy :: "json \<Rightarrow> bool" where
  "py_truthy JNull = False"
| "py_truthy (JBool b) = b"
| "py_truthy (JInt i) = (i \<noteq> 0)"
| "py_truthy (JStr s) = (s \<noteq> [])"
| "py_truthy (JList xs) = (xs \<noteq> [])"
| "py_truthy (JDict kvs) = (kvs \<noteq> [])"

text \<open>\<open>d.get(k)\<close> is \<open>None\<close> for a missing key.\<close>

definition dict_get :: "dict \<Rightarrow> string \<Rightarrow> json" where
  "dict_get d k = (case map_of d k of None \<Rightarrow> JNull | Some v \<Rightarrow> v)"

definition dict_get_default :: "dict \<Rightarrow> string \<Rightarrow> json \<Rightarrow> json" where
  "dict_get_default d k dflt = (case map_of d k of None \<Rightarrow> dflt | Some v \<Rightarrow> v)"

text \<open>\<open>edge.metadata.get(k) if edge.metadata else None\<close>.\<close>

definition metadata_get :: "dict option \<Rightarrow> string \<Rightarrow> json" where
  "metadata_get md k =
     (case md of None \<Rightarrow> JNull | Some d \<Rightarrow> (if d = [] then JNull else dict_get d k))"

text \<open>
  \<open>str.upper()\<close> follows the case mappings of Unicode, which are tables of the Python
  runtime and no code of the repository: the function is the parameter \<open>upper\<close> of
  everything that calls it.  A value that is no string has no \<open>upper\<close>: the call raises
  \<open>AttributeError\<close>.
\<close>

fun py_upper :: "(string \<Rightarrow> string) \<Rightarrow> json \<Rightarrow> py_error + string" where
  "py_upper upper (JStr s) = Inr (upper s)"
| "py_upper upper v = Inl AttributeError"


section \<open>Builder (\<open>app/engine/builder.py\<close>)\<close>

definition ALLOWED_COMPONENT_TYPES :: "string set" where
  "ALLOWED_COMPONENT_TYPES = {''frontend'', ''backend'', ''database''}"

definition ALLOWED_RESOURCE_TYPES :: "string set" where
  "ALLOWED_RESOURCE_TYPES = {''api_endpoint'', ''database_table'', ''migration''}"

definition ALLOWED_EDGE_TYPES :: "string set" where
  "ALLOWED_EDGE_TYPES = {''calls'', ''creates'', ''reads'', ''updates'', ''deletes'', ''depends_on''}"

text \<open>
  A \<open>BuildError\<close> is modelled by what its message is made of; \<open>build_error_message\<close> writes
  the message.  The two messages about unknown types end with a printed Python set, whose
  order is not fixed; they are written up to that set.  Anything else the code can raise
  (an \<open>AttributeError\<close> on a property that is no string, an exception of the graph outside
  the \<open>try\<close>) is a fault of its own.
\<close>

datatype build_error =
    UnknownComponentType string
  | UnknownResourceType string
  | UnknownRelationshipType string
  | DependencyExists string
  | UniqueEndpoint string json string string
  | NoAmbiguousRoute json string "string list"

datatype failure = BuildError build_error | PyError py_error | GraphFault graph_error

fun build_error_message :: "build_error \<Rightarrow> string" where
  "build_error_message (UnknownComponentType t) =
     ''Unknown component type: '' @ [CHR 0x27] @ t @ [CHR 0x27] @ ''. Allowed: ''"
| "build_error_message (UnknownResourceType t) =
     ''Unknown resource type: '' @ [CHR 0x27] @ t @ [CHR 0x27] @ ''. Allowed: ''"
| "build_error_message (UnknownRelationshipType t) =
     ''Unknown relationship type: '' @ [CHR 0x27] @ t @ [CHR 0x27] @ ''. Allowed: ''"
| "build_error_message (DependencyExists e) =
     ''Structural Violation (DEPENDENCY_EXISTS): '' @ e"
| "build_error_message (UniqueEndpoint method path first_id second_id) =
     ''Structural Violation (UNIQUE_ENDPOINT): '' @ method @ '' '' @ py_str path
       @ '' declared in multiple resources: '' @ first_id @ '' and '' @ second_id"
| "build_error_message (NoAmbiguousRoute call_path target_name ids) =
     ''Structural Violation (NO_AMBIGUOUS_ROUTE): Call to '' @ py_str call_path @ '' on ''
       @ target_name @ '' is ambiguous. Matches: '' @ py_str (JList (map JStr ids))"

definition normalize_resource_type :: "string \<Rightarrow> string" where
  "normalize_resource_type t =
     (let t1 = (if t = ''api'' then ''api_endpoint'' else t)
      in if t1 = ''table'' then ''database_table'' else t1)"

fun add_resources :: "system_graph \<Rightarrow> string \<Rightarrow> resource list \<Rightarrow> failure + system_graph" where
  "add_resources g cid [] = Inr g"
| "add_resources g cid (res # rest) =
     (let rt = normalize_resource_type (res_type res)
      in if rt \<notin> ALLOWED_RESOURCE_TYPES then Inl (BuildError (UnknownResourceType (res_type res)))
         else (case add_node g (res_id res) rt (res_name res) (res_properties res) of
                 (Some err, g1) \<Rightarrow> Inl (GraphFault err)
               | (None, g1) \<Rightarrow>
                   (case add_edge g1 cid (res_id res) ''contains'' None of
                      (Some err, g2) \<Rightarrow> Inl (GraphFault err)
                    | (None, g2) \<Rightarrow> add_resources g2 cid rest)))"

fun add_components :: "system_graph \<Rightarrow> component list \<Rightarrow> failure + system_graph" where
  "add_components g [] = Inr g"
| "add_components g (c # rest) =
     (if comp_type c \<notin> ALLOWED_COMPONENT_TYPES
      then Inl (BuildError (UnknownComponentType (comp_type c)))
      else (case add_node g (comp_id c) ''component'' (comp_name c)
                   [(''path'', JStr (comp_path c)), (''comp_type'', JStr (comp_type c))] of
              (Some err, g1) \<Rightarrow> Inl (GraphFault err)
            | (None, g1) \<Rightarrow>
                (case add_resources g1 (comp_id c) (comp_resources c) of
                   Inl f \<Rightarrow> Inl f
                 | Inr g2 \<Rightarrow> add_components g2 rest)))"

fun graph_error_text :: "graph_error \<Rightarrow> string" where
  "graph_error_text (RuntimeError m) = m"
| "graph_error_text (ValueError m) = m"

fun add_relationships :: "system_graph \<Rightarrow> relationship list \<Rightarrow> failure + system_graph" where
  "add_relationships g [] = Inr g"
| "add_relationships g (rel # rest) =
     (if rel_type rel \<notin> ALLOWED_EDGE_TYPES
      then Inl (BuildError (UnknownRelationshipType (rel_type rel)))
      else (case add_edge g (rel_source rel) (rel_target rel) (rel_type rel) (Some (rel_metadata rel)) of
              (Some (ValueError m), g1) \<Rightarrow> Inl (BuildError (DependencyExists m))
            | (Some (RuntimeError m), g1) \<Rightarrow> Inl (GraphFault (RuntimeError m))
            | (None, g1) \<Rightarrow> add_relationships g1 rest))"

text \<open>
  \<open>_reject_ambiguity\<close>, first pass.  \<open>routes\<close> is keyed by the pair (method, path).  A path
  that is a list or a dictionary cannot be hashed (\<open>TypeError\<close>); \<open>True\<close> and \<open>1\<close> are the
  same key.
\<close>

fun hashable :: "json \<Rightarrow> bool" where
  "hashable (JList xs) = False"
| "hashable (JDict kvs) = False"
| "hashable v = True"

fun hash_key :: "json \<Rightarrow> json" where
  "hash_key (JBool b) = JInt (if b then 1 else 0)"
| "hash_key v = v"

fun unique_endpoint ::
  "(string \<Rightarrow> string) \<Rightarrow> ((string \<times> json) \<times> string) list \<Rightarrow> node_data list \<Rightarrow> failure + unit" where
  "unique_endpoint upper routes [] = Inr ()"
| "unique_endpoint upper routes (node # rest) =
     (let props = n_properties node
      in case py_upper upper (dict_get_default props ''method'' (JStr [])) of
           Inl err \<Rightarrow> Inl (PyError err)
         | Inr method \<Rightarrow>
             (let path = dict_get_default props ''path'' (JStr [])
              in if method \<noteq> [] \<and> py_truthy path then
                   (if \<not> hashable path then Inl (PyError TypeError)
                    else (case map_of routes (method, hash_key path) of
                            Some first_id \<Rightarrow>
                              Inl (BuildError (UniqueEndpoint method path first_id (n_id node)))
                          | None \<Rightarrow>
                              unique_endpoint upper (((method, hash_key path), n_id node) # routes) rest))
                 else unique_endpoint upper routes rest))"

text \<open>A loop that appends to a list and may raise on the way.\<close>

fun collect :: "('a \<Rightarrow> 'e + 'b option) \<Rightarrow> 'a list \<Rightarrow> 'e + 'b list" where
  "collect f [] = Inr []"
| "collect f (x # xs) =
     (case f x of
        Inl err \<Rightarrow> Inl err
      | Inr r \<Rightarrow>
          (case collect f xs of
             Inl err \<Rightarrow> Inl err
           | Inr rs \<Rightarrow> Inr (case r of None \<Rightarrow> rs | Some y \<Rightarrow> y # rs)))"

text \<open>Second pass: the children of the called component that the call resolves to.\<close>

definition route_candidate ::
  "(string \<Rightarrow> string) \<Rightarrow> system_graph \<Rightarrow> json \<Rightarrow> json \<Rightarrow> string \<Rightarrow> failure + node_data option" where
  "route_candidate upper g call_path call_method child_id =
     (case get_node g child_id of
        None \<Rightarrow> Inl (PyError AttributeError)
      | Some child \<Rightarrow>
          (if n_type child = ''api_endpoint'' \<and> py_eq (dict_get (n_properties child) ''path'') call_path
           then (if py_truthy call_method
                 then (case py_upper upper (dict_get_default (n_properties child) ''method'' (JStr [])) of
                         Inl err \<Rightarrow> Inl (PyError err)
                       | Inr m \<Rightarrow>
                           (case py_upper upper call_method of
                              Inl err \<Rightarrow> Inl (PyError err)
                            | Inr cm \<Rightarrow> Inr (if m = cm then Some child else None)))
                 else Inr (Some child))
           else Inr None))"

definition route_candidates ::
  "(string \<Rightarrow> string) \<Rightarrow> system_graph \<Rightarrow> node_data \<Rightarrow> json \<Rightarrow> json \<Rightarrow> failure + node_data list" where
  "route_candidates upper g target_node call_path call_method =
     (let children_edges = find_outgoing_edges g (n_id target_node) (Some ''contains'');
          children_ids = map e_target children_edges
      in collect (route_candidate upper g call_path call_method) children_ids)"

definition check_call :: "(string \<Rightarrow> string) \<Rightarrow> system_graph \<Rightarrow> edge_data \<Rightarrow> failure + unit" where
  "check_call upper g edge =
     (if e_type edge = ''calls'' then
        (let target_node = get_node g (e_target edge);
             call_path = metadata_get (e_metadata edge) ''path'';
             call_method = metadata_get (e_metadata edge) ''method''
         in if py_truthy call_path then
              (case target_node of
                 None \<Rightarrow> Inl (PyError AttributeError)
               | Some t \<Rightarrow>
                   (if n_type t = ''component'' then
                      (case route_candidates upper g t call_path call_method of
                         Inl f \<Rightarrow> Inl f
                       | Inr found \<Rightarrow>
                           (if length found > 1
                            then Inl (BuildError (NoAmbiguousRoute call_path (n_name t) (map n_id found)))
                            else Inr ()))
                    else Inr ()))
            else Inr ())
      else Inr ())"

fun check_calls :: "(string \<Rightarrow> string) \<Rightarrow> system_graph \<Rightarrow> edge_data list \<Rightarrow> failure + unit" where
  "check_calls upper g [] = Inr ()"
| "check_calls upper g (edge # rest) =
     (case check_call upper g edge of Inl f \<Rightarrow> Inl f | Inr u \<Rightarrow> check_calls upper g rest)"

definition reject_ambiguity :: "(string \<Rightarrow> string) \<Rightarrow> system_graph \<Rightarrow> failure + unit" where
  "reject_ambiguity upper g =
     (let api_nodes = find_nodes_by_type g ''api_endpoint''
      in case unique_endpoint upper [] api_nodes of
           Inl f \<Rightarrow> Inl f
         | Inr u \<Rightarrow> check_calls upper g (edges g))"

definition compile_plan :: "plan \<Rightarrow> failure + system_graph" where
  "compile_plan p =
     (case add_components empty_graph (components p) of
        Inl f \<Rightarrow> Inl f
      | Inr g1 \<Rightarrow> add_relationships g1 (relationships p))"

definition build :: "(string \<Rightarrow> string) \<Rightarrow> plan \<Rightarrow> failure + system_graph" where
  "build upper p =
     (case compile_plan p of
        Inl f \<Rightarrow> Inl f
      | Inr g \<Rightarrow>
          (case reject_ambiguity upper g of
             Inl f \<Rightarrow> Inl f
           | Inr u \<Rightarrow> Inr (freeze g)))"


section \<open>Rule evaluators (\<open>app/engine/evaluators.py\<close>)\<close>

















text \<open>The pair a formatted violation of a DFR is ordered by.\<close>

definition formatted_order :: "dict \<Rightarrow> string \<times> string" where
  "formatted_order d = (py_str (dict_get d ''rule_id''), py_str (dict_get d ''offending_node''))"

section \<open>Histories of graph operations\<close>

text \<open>
  To speak about insertion order, a graph is followed from the empty graph through a
  sequence of calls of its mutators.  Next to the graph the history keeps the node ids in
  the order in which they were first added and the edges in the order in which they were
  added; a call that raises adds nothing.
\<close>

datatype graph_op = AddNode string string string dict | AddEdge string string string "dict option" | Freeze

definition edge_attrs_of :: "edge_data \<Rightarrow> edge_attrs" where
  "edge_attrs_of e = \<lparr>a_type = e_type e, a_metadata = e_metadata e\<rparr>"

fun step :: "system_graph \<times> string list \<times> edge_data list \<Rightarrow> graph_op \<Rightarrow> system_graph \<times> string list \<times> edge_data list" where
  "step (g, ns, es) (AddNode i ty nm props) =
     (case add_node g i ty nm props of
        (None, g') \<Rightarrow> (g', if i \<in> set ns then ns else ns @ [i], es)
      | (Some err, g') \<Rightarrow> (g', ns, es))"
| "step (g, ns, es) (AddEdge s t ty md) =
     (case add_edge g s t ty md of
        (None, g') \<Rightarrow> (g', ns, es @ [\<lparr>e_source = s, e_target = t, e_type = ty, e_metadata = md\<rparr>])
      | (Some err, g') \<Rightarrow> (g', ns, es))"
| "step (g, ns, es) Freeze = (freeze g, ns, es)"

definition run_ops :: "graph_op list \<Rightarrow> system_graph \<times> string list \<times> edge_data list" where
  "run_ops ops = foldl step (empty_graph, [], []) ops"

text \<open>The adjacency entry of a node, as \<open>add_edge\<close> builds it from the edges at that node.\<close>

definition build_adj :: "(edge_data \<Rightarrow> string) \<Rightarrow> edge_data list \<Rightarrow> adjacency" where
  "build_adj nb es = foldl (\<lambda>adj e. adj_add adj (nb e) (edge_attrs_of e)) [] es"

definition trace_inv :: "system_graph \<times> string list \<times> edge_data list \<Rightarrow> bool" where
  "trace_inv t = (case t of (g, ns, es) \<Rightarrow>
     map n_id (g_nodes g) = ns \<and> distinct ns
     \<and> list_all (\<lambda>e. e_source e \<in> set ns \<and> e_target e \<in> set ns) es
     \<and> g_succ g = (\<lambda>u. build_adj e_target (filter (\<lambda>e. e_source e = u) es))
     \<and> g_pred g = (\<lambda>v. build_adj e_source (filter (\<lambda>e. e_target e = v) es)))"

text \<open>The ids a plan gives to nodes: every component, followed by its resources.\<close>

definition plan_node_ids :: "plan \<Rightarrow> string list" where
  "plan_node_ids p = concat (map (\<lambda>c. comp_id c # map res_id (comp_resources c)) (components p))"

definition node_ids :: "system_graph \<Rightarrow> string list" where
  "node_ids g = map n_id (g_nodes g)"

section \<open>The ambiguity rules, read declaratively\<close>

text \<open>
  What the two passes of \<open>_reject_ambiguity\<close> look at, for endpoints whose method and path
  are strings: the route of an endpoint is its method in upper case with its path, and only
  an endpoint with a non-empty method and a non-empty path takes part in the first pass.
  The candidates of a call are the children of the called component, one for every
  \<open>contains\<close> edge, that are endpoints at the call's path and, when the call names a method,
  have that method regardless of case.
\<close>

definition node_method :: "(string \<Rightarrow> string) \<Rightarrow> node_data \<Rightarrow> string" where
  "node_method upper n = upper (key_str (dict_get_default (n_properties n) ''method'' (JStr [])))"

definition node_path :: "node_data \<Rightarrow> json" where
  "node_path n = dict_get_default (n_properties n) ''path'' (JStr [])"

definition node_route :: "(string \<Rightarrow> string) \<Rightarrow> node_data \<Rightarrow> string \<times> json" where
  "node_route upper n = (node_method upper n, node_path n)"

definition routed :: "(string \<Rightarrow> string) \<Rightarrow> node_data \<Rightarrow> bool" where
  "routed upper n = (node_method upper n \<noteq> [] \<and> node_path n \<noteq> JStr [])"

definition endpoint_typed :: "node_data \<Rightarrow> bool" where
  "endpoint_typed n =
     (key_is_str (dict_get_default (n_properties n) ''method'' (JStr []))
      \<and> key_is_str (dict_get_default (n_properties n) ''path'' (JStr [])))"


definition children :: "system_graph \<Rightarrow> node_data \<Rightarrow> node_data list" where
  "children g t =
     List.map_filter (get_node g) (map e_target (find_outgoing_edges g (n_id t) (Some ''contains'')))"

definition is_candidate :: "(string \<Rightarrow> string) \<Rightarrow> json \<Rightarrow> json \<Rightarrow> node_data \<Rightarrow> bool" where
  "is_candidate upper call_path call_method child =
     (n_type child = ''api_endpoint''
      \<and> py_eq (dict_get (n_properties child) ''path'') call_path
      \<and> (if py_truthy call_method then node_method upper child = upper (key_str call_method) else True))"

definition candidates ::
  "(string \<Rightarrow> string) \<Rightarrow> system_graph \<Rightarrow> node_data \<Rightarrow> json \<Rightarrow> json \<Rightarrow> node_data list" where
  "candidates upper g t call_path call_method = filter (is_candidate upper call_path call_method) (children g t)"

definition ambiguous_call :: "(string \<Rightarrow> string) \<Rightarrow> system_graph \<Rightarrow> edge_data \<Rightarrow> bool" where
  "ambiguous_call upper g e =
     (e_type e = ''calls'' \<and> py_truthy (metadata_get (e_metadata e) ''path'')
      \<and> (case get_node g (e_target e) of
            None \<Rightarrow> False
          | Some t \<Rightarrow>
              n_type t = ''component''
              \<and> 1 < length (candidates upper g t (metadata_get (e_metadata e) ''path'')
                                 (metadata_get (e_metadata e) ''method''))))"

definition ambiguity_error :: "(string \<Rightarrow> string) \<Rightarrow> system_graph \<Rightarrow> edge_data \<Rightarrow> build_error" where
  "ambiguity_error upper g e =
     (let call_path = metadata_get (e_metadata e) ''path'';
          call_method = metadata_get (e_metadata e) ''method''
      in case get_node g (e_target e) of
           None \<Rightarrow> NoAmbiguousRoute call_path [] []
         | Some t \<Rightarrow> NoAmbiguousRoute call_path (n_name t) (map n_id (candidates upper g t call_path call_method)))"

text \<open>A call is typed when its method is a string or missing.\<close>

definition call_typed :: "edge_data \<Rightarrow> bool" where
  "call_typed e =
     (key_is_str (metadata_get (e_metadata e) ''method'')
      \<or> metadata_get (e_metadata e) ''method'' = JNull)"

text \<open>Every edge of the adjacency joins two nodes of the graph.\<close>

definition graph_closed :: "system_graph \<Rightarrow> bool" where
  "graph_closed g =
     (\<forall>u v es. (v, es) \<in> set (g_succ g u) \<longrightarrow> has_node g u \<and> has_node g v)"

section \<open>Inputs that differ only in order\<close>

text \<open>
  \<open>reorder a b\<close>: \<open>b\<close> is \<open>a\<close> with the elements of lists and the entries of dictionaries
  permuted, at any depth.  \<open>tie_free a\<close>: every dictionary of \<open>a\<close> has distinct keys, and in
  every list of \<open>a\<close> the sort keys of the canonicalized elements are strings (an \<open>id\<close>, where
  there is one, is a string) and elements with the same sort key have the same canonical
  form.  \<open>canonical_form\<close>: dictionaries have their keys in ascending order and lists are in
  ascending order of the sort key, at any depth.
\<close>

definition ties_identical :: "json list \<Rightarrow> bool" where
  "ties_identical ys =
     list_all (\<lambda>x. list_all (\<lambda>y. list_sort_key x \<noteq> list_sort_key y \<or> x = y) ys) ys"




section \<open>Plans that differ only in declaration order\<close>

text \<open>
  \<open>plan_reorder p p'\<close>: \<open>p'\<close> is \<open>p\<close> with the list of components, the list of resources of
  any component and the list of relationships permuted; nothing else changes.
  \<open>plan_tie_free p\<close>: in each of these lists, entries with the same sort key (the \<open>id\<close> of a
  component or a resource, the printed form of a relationship) have the same canonical
  form.
\<close>

definition component_reorder :: "component \<Rightarrow> component \<Rightarrow> bool" where
  "component_reorder c c' =
     (c' = c\<lparr>comp_resources := comp_resources c'\<rparr>
      \<and> mset (comp_resources c') = mset (comp_resources c))"

definition plan_reorder :: "plan \<Rightarrow> plan \<Rightarrow> bool" where
  "plan_reorder p p' =
     (p' = p\<lparr>components := components p', relationships := relationships p'\<rparr>
      \<and> (\<exists>cs. list_all2 component_reorder (components p) cs \<and> mset cs = mset (components p'))
      \<and> mset (relationships p') = mset (relationships p))"

definition plan_tie_free :: "plan \<Rightarrow> bool" where
  "plan_tie_free p =
     (ties_identical (map (\<lambda>c. sort_lists_in_plan (dump_component c)) (components p))
      \<and> list_all (\<lambda>c. ties_identical (map (\<lambda>r. sort_lists_in_plan (dump_resource r)) (comp_resources c)))
           (components p)
      \<and> ties_identical (map (\<lambda>r. sort_lists_in_plan (dump_relationship r)) (relationships p)))"

text \<open>
  The examples below have ASCII method names, on which \<open>str.upper()\<close> maps the letters
  \<open>a\<close> to \<open>z\<close> to \<open>A\<close> to \<open>Z\<close> and leaves every other character alone.
\<close>

definition ascii_upper_char :: "char \<Rightarrow> char" where
  "ascii_upper_char c =
     (case map_of (zip ''abcdefghijklmnopqrstuvwxyz'' ''ABCDEFGHIJKLMNOPQRSTUVWXYZ'') c of
        None \<Rightarrow> c
      | Some u \<Rightarrow> u)"

definition ascii_upper :: "string \<Rightarrow> string" where
  "ascii_upper s = map ascii_upper_char s"

text \<open>Two plans for the examples below.\<close>

definition twin_with_dependency :: component where
  "twin_with_dependency =
     \<lparr>comp_id = ''svc'', comp_name = ''Service'', comp_type = ''backend'', comp_path = ''/svc'',
      comp_resources = [], comp_dependencies = [''db'']\<rparr>"

definition twin_without_dependency :: component where
  "twin_without_dependency =
     \<lparr>comp_id = ''svc'', comp_name = ''Service'', comp_type = ''backend'', comp_path = ''/svc'',
      comp_resources = [], comp_dependencies = []\<rparr>"

definition twins_plan :: plan where
  "twins_plan =
     \<lparr>schema_version = ''1.0'', project_name = ''p'',
      components = [twin_with_dependency, twin_without_dependency],
      relationships = [], env_vars = []\<rparr>"

definition twins_plan_swapped :: plan where
  "twins_plan_swapped =
     \<lparr>schema_version = ''1.0'', project_name = ''p'',
      components = [twin_without_dependency, twin_with_dependency],
      relationships = [], env_vars = []\<rparr>"

definition users_endpoint :: resource where
  "users_endpoint =
     \<lparr>res_id = ''users'', res_type = ''api_endpoint'', res_name = ''Users'', res_description = None,
      res_properties = [(''method'', JStr ''GET''), (''path'', JStr ''/users'')]\<rparr>"

definition orders_endpoint :: resource where
  "orders_endpoint =
     \<lparr>res_id = ''orders'', res_type = ''api_endpoint'', res_name = ''Orders'', res_description = None,
      res_properties = [(''method'', JStr ''GET''), (''path'', JStr ''/orders'')]\<rparr>"

definition web_component :: component where
  "web_component =
     \<lparr>comp_id = ''web'', comp_name = ''Web'', comp_type = ''frontend'', comp_path = ''/web'',
      comp_resources = [], comp_dependencies = [''api'']\<rparr>"

definition call_users :: relationship where
  "call_users =
     \<lparr>rel_source = ''web'', rel_target = ''api'', rel_type = ''calls'',
      rel_metadata = [(''path'', JStr ''/users''), (''method'', JStr ''GET'')]\<rparr>"

definition call_orders :: relationship where
  "call_orders =
     \<lparr>rel_source = ''web'', rel_target = ''api'', rel_type = ''calls'',
      rel_metadata = [(''path'', JStr ''/orders''), (''method'', JStr ''GET'')]\<rparr>"

definition shop_plan :: plan where
  "shop_plan =
     \<lparr>schema_version = ''1.0'', project_name = ''shop'',
      components =
        [web_component,
         \<lparr>comp_id = ''api'', comp_name = ''API'', comp_type = ''backend'', comp_path = ''/api'',
          comp_resources = [users_endpoint, orders_endpoint], comp_dependencies = []\<rparr>],
      relationships = [call_users, call_orders], env_vars = [(''PORT'', ''8000'')]\<rparr>"

definition shop_plan_reordered :: plan where
  "shop_plan_reordered =
     \<lparr>schema_version = ''1.0'', project_name = ''shop'',
      components =
        [\<lparr>comp_id = ''api'', comp_name = ''API'', comp_type = ''backend'', comp_path = ''/api'',
          comp_resources = [orders_endpoint, users_endpoint], comp_dependencies = []\<rparr>,
         web_component],
      relationships = [call_orders, call_users], env_vars = [(''PORT'', ''8000'')]\<rparr>"

section \<open>The fingerprint of a violation\<close>




section \<open>What a plan puts into the graph\<close>













section \<open>Properties of the DFR generator\<close>

lemma formatted_order_format: "formatted_order (format_violation v) = violation_order v"
  by (simp add: formatted_order_def format_violation_def violation_order_def dict_get_def)

text \<open>
  Claim C2.  For every plan and every list of violations, the \<open>engine_version\<close> field of the
  DFR that \<open>generate_dfr\<close> returns is the engine-version string handed to the generator,
  character for character: the generator neither computes nor alters it.  In the code the
  string reaches \<open>generate_dfr\<close> as the imported constant \<open>ENGINE_VERSION\<close>, and both
  callers write the same constant into the DFR again.
\<close>

theorem generate_dfr_engine_version_verbatim:
  "engine_version (generate_dfr ENGINE_VERSION sha256_hex p vs) = ENGINE_VERSION"
  by (simp add: generate_dfr_def Let_def)

text \<open>
  Claim C4.  For every plan and every list of violations, \<open>generate_dfr\<close> returns a DFR
  (the function is total: it has no failing branch) whose violations are the given ones,
  formatted, in ascending order of (rule id, offending node), violations with equal pairs
  keeping their order; \<open>passed\<close> is true exactly when the list of violations is empty.
\<close>

theorem generate_dfr_sorted_and_passed:
  "sorted (map formatted_order (violations (generate_dfr ENGINE_VERSION sha256_hex p vs)))
   \<and> violations (generate_dfr ENGINE_VERSION sha256_hex p vs)
       = map format_violation (sort_key violation_order vs)
   \<and> mset (violations (generate_dfr ENGINE_VERSION sha256_hex p vs)) = mset (map format_violation vs)
   \<and> passed (generate_dfr ENGINE_VERSION sha256_hex p vs) = (vs = [])"
proof -
  have m: "formatted_order \<circ> format_violation = violation_order"
    by (rule ext) (simp add: formatted_order_format)
  have "sorted (map violation_order (sort_key violation_order vs))"
    by (rule sorted_sort_key)
  moreover have "mset (map format_violation (sort_key violation_order vs)) = mset (map format_violation vs)"
    by simp
  moreover have "(sort_key violation_order vs = []) = (vs = [])"
    by (metis length_0_conv length_sort)
  ultimately show ?thesis
    by (simp add: generate_dfr_def Let_def m)
qed

section \<open>Properties of the graph\<close>

lemma nodes_put_ids:
  "map n_id (nodes_put ns n) = (if n_id n \<in> set (map n_id ns) then map n_id ns else map n_id ns @ [n_id n])"
  by (induction ns) auto

lemma build_adj_snoc: "build_adj nb (es @ [e]) = adj_add (build_adj nb es) (nb e) (edge_attrs_of e)"
  by (simp add: build_adj_def)

lemma step_inv: "trace_inv t \<Longrightarrow> trace_inv (step t op)"
proof (cases t)
  case (fields g ns es)
  assume inv: "trace_inv t"
  show ?thesis
  proof (cases op)
    case (AddNode i ty nm props)
    with inv fields show ?thesis
      by (auto simp: trace_inv_def add_node_def nodes_put_ids list_all_iff)
  next
    case (AddEdge s t' ty md)
    with inv fields show ?thesis
      by (auto simp: trace_inv_def add_edge_def build_adj_snoc edge_attrs_of_def fun_eq_iff has_node_def list_all_iff)
  next
    case Freeze
    with inv fields show ?thesis by (auto simp: trace_inv_def freeze_def)
  qed
qed

lemma run_ops_inv: "trace_inv (run_ops ops)"
proof -
  have "trace_inv t \<Longrightarrow> trace_inv (foldl step t ops)" for t
    by (induction ops arbitrary: t) (simp_all add: step_inv)
  moreover have "trace_inv (empty_graph, [], [])"
    by (simp add: trace_inv_def empty_graph_def build_adj_def)
  ultimately show ?thesis by (simp add: run_ops_def)
qed

lemma adj_add_keys: "fst ` set (adj_add adj v a) = insert v (fst ` set adj)"
  by (induction adj v a rule: adj_add.induct) (simp_all add: insert_commute)

lemma adj_add_new: "v \<notin> fst ` set adj \<Longrightarrow> adj_add adj v a = adj @ [(v, [a])]"
  by (induction adj v a rule: adj_add.induct) auto

lemma build_adj_keys: "fst ` set (build_adj nb es) = nb ` set es"
proof (induction es rule: rev_induct)
  case Nil
  then show ?case by (simp add: build_adj_def)
next
  case (snoc e es)
  then show ?case by (simp add: build_adj_snoc adj_add_keys)
qed

lemma build_adj_distinct:
  "distinct (map nb es) \<Longrightarrow> build_adj nb es = map (\<lambda>e. (nb e, [edge_attrs_of e])) es"
proof (induction es rule: rev_induct)
  case Nil
  then show ?case by (simp add: build_adj_def)
next
  case (snoc e es)
  from snoc.prems have "nb e \<notin> fst ` set (build_adj nb es)"
    unfolding build_adj_keys by simp
  with snoc show ?case
    by (simp add: build_adj_snoc adj_add_new)
qed

lemma out_edges_distinct:
  assumes "trace_inv (g, ns, es)"
    and "distinct (map e_target (filter (\<lambda>e. e_source e = u) es))"
  shows "out_edges g u = filter (\<lambda>e. e_source e = u) es"
proof -
  let ?es = "filter (\<lambda>e. e_source e = u) es"
  have "g_succ g u = map (\<lambda>e. (e_target e, [edge_attrs_of e])) ?es"
    using assms by (simp add: trace_inv_def build_adj_distinct)
  then have "out_edges g u = map (\<lambda>e. mk_edge u (e_target e) (edge_attrs_of e)) ?es"
    by (simp add: out_edges_def comp_def map_concat)
  also have "\<dots> = ?es"
    by (rule map_idI) (auto simp: mk_edge_def edge_attrs_of_def)
  finally show ?thesis .
qed

lemma in_edges_distinct:
  assumes "trace_inv (g, ns, es)"
    and "distinct (map e_source (filter (\<lambda>e. e_target e = v) es))"
  shows "in_edges g v = filter (\<lambda>e. e_target e = v) es"
proof -
  let ?es = "filter (\<lambda>e. e_target e = v) es"
  have "g_pred g v = map (\<lambda>e. (e_source e, [edge_attrs_of e])) ?es"
    using assms by (simp add: trace_inv_def build_adj_distinct)
  then have "in_edges g v = map (\<lambda>e. mk_edge (e_source e) v (edge_attrs_of e)) ?es"
    by (simp add: in_edges_def comp_def map_concat)
  also have "\<dots> = ?es"
    by (rule map_idI) (auto simp: mk_edge_def edge_attrs_of_def)
  finally show ?thesis .
qed


lemma frozen_step: "g_frozen g \<Longrightarrow> fst (step (g, ns, es) op) = g"
  by (cases op) (simp_all add: add_node_def add_edge_def freeze_def)

lemma get_node_distinct:
  "distinct (map n_id ns) \<Longrightarrow> n \<in> set ns \<Longrightarrow> find (\<lambda>m. n_id m = n_id n) ns = Some n"
  by (induction ns) auto

lemma nodes_by_type_order:
  assumes "trace_inv (g, ns, es)"
  shows "map n_id (find_nodes_by_type g k)
           = filter (\<lambda>i. map_option n_type (get_node g i) = Some k) ns"
proof -
  from assms have ids: "map n_id (g_nodes g) = ns" and d: "distinct (map n_id (g_nodes g))"
    by (simp_all add: trace_inv_def)
  have "filter (\<lambda>i. map_option n_type (get_node g i) = Some k) (map n_id (g_nodes g))
          = map n_id (filter (\<lambda>n. n_type n = k) (g_nodes g))"
    unfolding filter_map
    by (rule arg_cong [where f = "map n_id"], rule filter_cong)
       (simp_all add: get_node_def get_node_distinct [OF d])
  with ids show ?thesis by (simp add: find_nodes_by_type_def)
qed

text \<open>
  Claim C6, as the code has it.  For every graph reached from the empty graph by calls of
  its mutators: on a frozen graph \<open>add_node\<close> and \<open>add_edge\<close> raise and no mutator changes
  the graph any more; \<open>add_edge\<close> raises and leaves the graph as it is when an endpoint is
  not a node; \<open>freeze\<close> freezes; \<open>get_node\<close> finds exactly the ids that were added;
  \<open>find_nodes_by_type\<close> lists nodes in the order in which their ids were first added; and
  \<open>find_outgoing_edges\<close> (\<open>find_incoming_edges\<close>) lists the edges of a node in insertion
  order when no two of them lead to (come from) the same neighbour.
\<close>

theorem graph_contract:
  assumes "run_ops ops = (g, ns, es)"
  shows "(g_frozen g \<longrightarrow>
            add_node g i ty nm props = (Some (RuntimeError ''Graph is frozen''), g)
          \<and> add_edge g s t ty md = (Some (RuntimeError ''Graph is frozen''), g)
          \<and> fst (step (g, ns, es) op) = g)
       \<and> (\<not> has_node g s \<or> \<not> has_node g t \<longrightarrow>
            fst (add_edge g s t ty md) \<noteq> None \<and> snd (add_edge g s t ty md) = g)
       \<and> g_frozen (freeze g)
       \<and> (get_node g i \<noteq> None) = (i \<in> set ns)
       \<and> map n_id (find_nodes_by_type g k)
            = filter (\<lambda>j. map_option n_type (get_node g j) = Some k) ns
       \<and> (distinct (map e_target (filter (\<lambda>e. e_source e = u) es)) \<longrightarrow>
            find_outgoing_edges g u kind
              = filter (\<lambda>e. e_source e = u \<and> edge_type_ok kind e) es)
       \<and> (distinct (map e_source (filter (\<lambda>e. e_target e = u) es)) \<longrightarrow>
            find_incoming_edges g u kind
              = filter (\<lambda>e. e_target e = u \<and> edge_type_ok kind e) es)"
proof -
  have inv: "trace_inv (g, ns, es)"
    using run_ops_inv [of ops] assms by simp
  have frozen: "g_frozen g \<longrightarrow>
            add_node g i ty nm props = (Some (RuntimeError ''Graph is frozen''), g)
          \<and> add_edge g s t ty md = (Some (RuntimeError ''Graph is frozen''), g)
          \<and> fst (step (g, ns, es) op) = g"
    by (simp add: add_node_def add_edge_def frozen_step)
  have absent: "\<not> has_node g s \<or> \<not> has_node g t \<longrightarrow>
            fst (add_edge g s t ty md) \<noteq> None \<and> snd (add_edge g s t ty md) = g"
    by (auto simp: add_edge_def)
  have fr: "g_frozen (freeze g)"
    by (simp add: freeze_def)
  have "(get_node g i \<noteq> None) = (i \<in> set (map n_id (g_nodes g)))"
    by (auto simp: get_node_def find_None_iff)
  with inv have gn: "(get_node g i \<noteq> None) = (i \<in> set ns)"
    by (simp add: trace_inv_def)
  note nt = nodes_by_type_order [OF inv, of k]
  have ends: "e \<in> set es \<Longrightarrow> has_node g (e_source e) \<and> has_node g (e_target e)" for e
    using inv by (auto simp: trace_inv_def has_node_def list_all_iff)
  have out: "distinct (map e_target (filter (\<lambda>e. e_source e = u) es)) \<longrightarrow>
            find_outgoing_edges g u kind
              = filter (\<lambda>e. e_source e = u \<and> edge_type_ok kind e) es"
  proof (cases "has_node g u")
    case True
    then show ?thesis
      by (auto simp: find_outgoing_edges_def out_edges_distinct [OF inv] conj_commute)
  next
    case False
    with ends have "filter (\<lambda>e. e_source e = u \<and> edge_type_ok kind e) es = []"
      by (auto simp: filter_empty_conv)
    with False show ?thesis by (simp add: find_outgoing_edges_def)
  qed
  have inc: "distinct (map e_source (filter (\<lambda>e. e_target e = u) es)) \<longrightarrow>
            find_incoming_edges g u kind
              = filter (\<lambda>e. e_target e = u \<and> edge_type_ok kind e) es"
  proof (cases "has_node g u")
    case True
    then show ?thesis
      by (auto simp: find_incoming_edges_def in_edges_distinct [OF inv] conj_commute)
  next
    case False
    with ends have "filter (\<lambda>e. e_target e = u \<and> edge_type_ok kind e) es = []"
      by (auto simp: filter_empty_conv)
    with False show ?thesis by (simp add: find_incoming_edges_def)
  qed
  from frozen absent fr gn nt out inc show ?thesis by blast
qed


lemmas graph_eval =
  run_ops_def add_node_def add_edge_def has_node_def empty_graph_def freeze_def
  find_outgoing_edges_def find_incoming_edges_def out_edges_def in_edges_def mk_edge_def
  edge_type_ok_def find_nodes_by_type_def get_node_def

theorem graph_contract_witness:
  "g_frozen (fst (run_ops [AddNode ''a'' ''component'' ''A'' [], AddNode ''b'' ''api_endpoint'' ''B'' [],
                           AddEdge ''a'' ''b'' ''contains'' None, Freeze]))
   \<and> add_node (fst (run_ops [AddNode ''a'' ''component'' ''A'' [], AddNode ''b'' ''api_endpoint'' ''B'' [],
                           AddEdge ''a'' ''b'' ''contains'' None, Freeze])) ''c'' ''component'' ''C'' []
       = (Some (RuntimeError ''Graph is frozen''),
          fst (run_ops [AddNode ''a'' ''component'' ''A'' [], AddNode ''b'' ''api_endpoint'' ''B'' [],
                           AddEdge ''a'' ''b'' ''contains'' None, Freeze]))
   \<and> \<not> has_node (fst (run_ops [AddNode ''a'' ''component'' ''A'' [], AddNode ''b'' ''api_endpoint'' ''B'' [],
                           AddEdge ''a'' ''b'' ''contains'' None])) ''zz''
   \<and> snd (add_edge (fst (run_ops [AddNode ''a'' ''component'' ''A'' [], AddNode ''b'' ''api_endpoint'' ''B'' [],
                           AddEdge ''a'' ''b'' ''contains'' None])) ''a'' ''zz'' ''calls'' None)
       = fst (run_ops [AddNode ''a'' ''component'' ''A'' [], AddNode ''b'' ''api_endpoint'' ''B'' [],
                           AddEdge ''a'' ''b'' ''contains'' None])
   \<and> find_outgoing_edges (fst (run_ops [AddNode ''a'' ''component'' ''A'' [], AddNode ''b'' ''api_endpoint'' ''B'' [],
                           AddEdge ''a'' ''b'' ''contains'' None])) ''a'' None
       = [\<lparr>e_source = ''a'', e_target = ''b'', e_type = ''contains'', e_metadata = None\<rparr>]
   \<and> find_incoming_edges (fst (run_ops [AddNode ''a'' ''component'' ''A'' [], AddNode ''b'' ''api_endpoint'' ''B'' [],
                           AddEdge ''a'' ''b'' ''contains'' None])) ''b'' (Some ''contains'')
       = [\<lparr>e_source = ''a'', e_target = ''b'', e_type = ''contains'', e_metadata = None\<rparr>]"
proof -
  let ?W1 = "[AddNode ''a'' ''component'' ''A'' [], AddNode ''b'' ''api_endpoint'' ''B'' [],
              AddEdge ''a'' ''b'' ''contains'' None]"
  let ?W2 = "[AddNode ''a'' ''component'' ''A'' [], AddNode ''b'' ''api_endpoint'' ''B'' [],
              AddEdge ''a'' ''b'' ''contains'' None, Freeze]"
  have r1: "run_ops ?W1 = (fst (run_ops ?W1), fst (snd (run_ops ?W1)), snd (snd (run_ops ?W1)))"
    by simp
  have r2: "run_ops ?W2 = (fst (run_ops ?W2), fst (snd (run_ops ?W2)), snd (snd (run_ops ?W2)))"
    by simp
  have fz: "g_frozen (fst (run_ops ?W2))"
    by (simp add: graph_eval)
  have ab: "\<not> has_node (fst (run_ops ?W1)) ''zz''"
    by (simp add: graph_eval)
  have es: "snd (snd (run_ops ?W1))
              = [\<lparr>e_source = ''a'', e_target = ''b'', e_type = ''contains'', e_metadata = None\<rparr>]"
    by (simp add: graph_eval)
  note c1 = graph_contract [OF r1, where s = "''a''" and t = "''zz''" and ty = "''calls''" and md = None
      and u = "''a''" and kind = None]
  note c1b = graph_contract [OF r1, where u = "''b''" and kind = "Some ''contains''"]
  note c2 = graph_contract [OF r2, where i = "''c''" and ty = "''component''" and nm = "''C''" and props = "[]"]
  from c2 fz have p1: "add_node (fst (run_ops ?W2)) ''c'' ''component'' ''C'' []
       = (Some (RuntimeError ''Graph is frozen''), fst (run_ops ?W2))"
    by blast
  from c1 ab have p2: "snd (add_edge (fst (run_ops ?W1)) ''a'' ''zz'' ''calls'' None) = fst (run_ops ?W1)"
    by blast
  from c1 have p3: "find_outgoing_edges (fst (run_ops ?W1)) ''a'' None
       = [\<lparr>e_source = ''a'', e_target = ''b'', e_type = ''contains'', e_metadata = None\<rparr>]"
    unfolding es by (simp add: edge_type_ok_def)
  from c1b have p4: "find_incoming_edges (fst (run_ops ?W1)) ''b'' (Some ''contains'')
       = [\<lparr>e_source = ''a'', e_target = ''b'', e_type = ''contains'', e_metadata = None\<rparr>]"
    unfolding es by (simp add: edge_type_ok_def)
  from fz p1 ab p2 p3 p4 show ?thesis by blast
qed

text \<open>
  Claim C6 as stated fails: parallel edges are listed with their neighbour.  After the
  edges a-b (calls), a-c (calls), a-b (reads), in this order, the outgoing edges of a are
  listed as a-b (calls), a-b (reads), a-c (calls).
\<close>

theorem edges_not_in_insertion_order:
  "map (\<lambda>e. (e_target e, e_type e))
     (find_outgoing_edges
        (fst (run_ops [AddNode ''a'' ''component'' ''A'' [], AddNode ''b'' ''component'' ''B'' [],
                       AddNode ''c'' ''component'' ''C'' [], AddEdge ''a'' ''b'' ''calls'' None,
                       AddEdge ''a'' ''c'' ''calls'' None, AddEdge ''a'' ''b'' ''reads'' None]))
        ''a'' None)
     = [(''b'', ''calls''), (''b'', ''reads''), (''c'', ''calls'')]
   \<and> map (\<lambda>e. (e_target e, e_type e))
       (filter (\<lambda>e. e_source e = ''a'')
          (snd (snd (run_ops [AddNode ''a'' ''component'' ''A'' [], AddNode ''b'' ''component'' ''B'' [],
                       AddNode ''c'' ''component'' ''C'' [], AddEdge ''a'' ''b'' ''calls'' None,
                       AddEdge ''a'' ''c'' ''calls'' None, AddEdge ''a'' ''b'' ''reads'' None]))))
     = [(''b'', ''calls''), (''c'', ''calls''), (''b'', ''reads'')]"
  by (simp add: graph_eval)

section \<open>Node ids in compiled graphs\<close>

lemma node_ids_add_node:
  assumes "add_node g i ty nm props = (None, g')"
  shows "set (node_ids g') = insert i (set (node_ids g)) \<and> (distinct (node_ids g) \<longrightarrow> distinct (node_ids g'))"
proof -
  from assms have "g' = g\<lparr>g_nodes := nodes_put (g_nodes g) \<lparr>n_id = i, n_type = ty, n_name = nm, n_properties = props\<rparr>\<rparr>"
    by (simp add: add_node_def split: if_splits)
  then have "node_ids g' = (if i \<in> set (node_ids g) then node_ids g else node_ids g @ [i])"
    by (simp add: node_ids_def nodes_put_ids)
  then show ?thesis by auto
qed

lemma node_ids_add_edge: "add_edge g s t ty md = (r, g') \<Longrightarrow> node_ids g' = node_ids g"
  by (auto simp: add_edge_def node_ids_def split: if_splits)

lemma node_ids_add_resources:
  "add_resources g cid rs = Inr g' \<Longrightarrow>
     set (node_ids g') = set (node_ids g) \<union> set (map res_id rs)
     \<and> (distinct (node_ids g) \<longrightarrow> distinct (node_ids g'))"
proof (induction rs arbitrary: g)
  case Nil
  then show ?case by simp
next
  case (Cons r rs)
  from Cons.prems obtain g1 g2 where
    a: "add_node g (res_id r) (normalize_resource_type (res_type r)) (res_name r) (res_properties r) = (None, g1)"
    and b: "add_edge g1 cid (res_id r) ''contains'' None = (None, g2)"
    and c: "add_resources g2 cid rs = Inr g'"
    by (auto simp: Let_def split: if_splits prod.splits option.splits)
  from node_ids_add_node [OF a] node_ids_add_edge [OF b] Cons.IH [OF c]
  show ?case by auto
qed

lemma node_ids_add_components:
  "add_components g cs = Inr g' \<Longrightarrow>
     set (node_ids g') = set (node_ids g) \<union> set (concat (map (\<lambda>c. comp_id c # map res_id (comp_resources c)) cs))
     \<and> (distinct (node_ids g) \<longrightarrow> distinct (node_ids g'))"
proof (induction cs arbitrary: g)
  case Nil
  then show ?case by simp
next
  case (Cons c cs)
  from Cons.prems obtain g1 g2 where
    a: "add_node g (comp_id c) ''component'' (comp_name c)
          [(''path'', JStr (comp_path c)), (''comp_type'', JStr (comp_type c))] = (None, g1)"
    and b: "add_resources g1 (comp_id c) (comp_resources c) = Inr g2"
    and c: "add_components g2 cs = Inr g'"
    by (auto split: if_splits prod.splits option.splits sum.splits)
  from node_ids_add_node [OF a] node_ids_add_resources [OF b] Cons.IH [OF c]
  show ?case by auto
qed

lemma node_ids_add_relationships:
  "add_relationships g rs = Inr g' \<Longrightarrow> node_ids g' = node_ids g"
proof (induction rs arbitrary: g)
  case Nil
  then show ?case by simp
next
  case (Cons r rs)
  from Cons.prems obtain g1 where
    a: "add_edge g (rel_source r) (rel_target r) (rel_type r) (Some (rel_metadata r)) = (None, g1)"
    and b: "add_relationships g1 rs = Inr g'"
    by (auto split: if_splits prod.splits option.splits graph_error.splits)
  from node_ids_add_edge [OF a] Cons.IH [OF b] show ?case by simp
qed

lemma node_ids_compile:
  assumes "compile_plan p = Inr g"
  shows "set (node_ids g) = set (plan_node_ids p) \<and> distinct (node_ids g)"
proof -
  from assms obtain g1 where a: "add_components empty_graph (components p) = Inr g1"
    and b: "add_relationships g1 (relationships p) = Inr g"
    by (auto simp: compile_plan_def split: sum.splits)
  have "node_ids empty_graph = []" by (simp add: node_ids_def empty_graph_def)
  with node_ids_add_components [OF a] node_ids_add_relationships [OF b]
  show ?thesis by (simp add: plan_node_ids_def)
qed

lemma build_compile: "build upper p = Inr g \<Longrightarrow> \<exists>g0. compile_plan p = Inr g0 \<and> reject_ambiguity upper g0 = Inr () \<and> g = freeze g0"
  by (auto simp: build_def split: sum.splits)





lemma has_node_nodes_put: "has_node (g\<lparr>g_nodes := nodes_put (g_nodes g) n\<rparr>) j = (j = n_id n \<or> has_node g j)"
  by (auto simp: has_node_def nodes_put_ids)















lemma collect_Inl: "collect f xs = Inl e \<Longrightarrow> \<exists>x\<in>set xs. f x = Inl e"
  by (induction xs) (auto split: sum.splits)

lemma route_candidate_error: "route_candidate upper g cp cm c = Inl f \<Longrightarrow> \<exists>e. f = PyError e"
  by (auto simp: route_candidate_def split: option.splits if_splits sum.splits)

lemma route_candidates_error: "route_candidates upper g t cp cm = Inl f \<Longrightarrow> \<exists>e. f = PyError e"
  by (auto simp: route_candidates_def Let_def dest!: collect_Inl route_candidate_error)







lemmas build_eval =
  build_def compile_plan_def reject_ambiguity_def check_call_def ALLOWED_COMPONENT_TYPES_def
  ALLOWED_RESOURCE_TYPES_def ALLOWED_EDGE_TYPES_def normalize_resource_type_def edges_def nodes_def




section \<open>End to end: a frontend call that no endpoint answers\<close>





section \<open>Properties of the ambiguity rules\<close>

lemma key_is_str_cases: "key_is_str v \<Longrightarrow> \<exists>s. v = JStr s"
  by (cases v) auto

lemma unique_endpoint_step:
  assumes "endpoint_typed n"
  shows "unique_endpoint upper routes (n # ns) =
     (if routed upper n then
        (case map_of routes (node_route upper n) of
           Some first_id \<Rightarrow> Inl (BuildError (UniqueEndpoint (node_method upper n) (node_path n) first_id (n_id n)))
         | None \<Rightarrow> unique_endpoint upper ((node_route upper n, n_id n) # routes) ns)
      else unique_endpoint upper routes ns)"
proof -
  from assms obtain m pth where
    m: "dict_get_default (n_properties n) ''method'' (JStr []) = JStr m"
    and pth: "dict_get_default (n_properties n) ''path'' (JStr []) = JStr pth"
    by (auto simp: endpoint_typed_def dest!: key_is_str_cases)
  then show ?thesis
    by (simp add: routed_def node_method_def node_path_def node_route_def Let_def split: option.splits)
qed

lemma unique_endpoint_ok:
  "list_all endpoint_typed ns \<Longrightarrow>
     (unique_endpoint upper routes ns = Inr ()) =
       (distinct (map (node_route upper) (filter (routed upper) ns))
        \<and> list_all (\<lambda>n. map_of routes (node_route upper n) = None) (filter (routed upper) ns))"
proof (induction ns arbitrary: routes)
  case Nil
  then show ?case by simp
next
  case (Cons n ns)
  then have t: "endpoint_typed n" and ts: "list_all endpoint_typed ns" by simp_all
  show ?case
  proof (cases "routed upper n")
    case False
    with Cons.IH [OF ts] t show ?thesis by (simp add: unique_endpoint_step del: unique_endpoint.simps)
  next
    case True
    show ?thesis
    proof (cases "map_of routes (node_route upper n)")
      case (Some a)
      with True t show ?thesis by (simp add: unique_endpoint_step del: unique_endpoint.simps)
    next
      case None
      have "list_all (\<lambda>m. map_of ((node_route upper n, n_id n) # routes) (node_route upper m) = None) (filter (routed upper) ns)
             = (node_route upper n \<notin> set (map (node_route upper) (filter (routed upper) ns))
                \<and> list_all (\<lambda>m. map_of routes (node_route upper m) = None) (filter (routed upper) ns))"
        by (induction ns) auto
      with None True t Cons.IH [OF ts, of "(node_route upper n, n_id n) # routes"] show ?thesis
        by (simp add: unique_endpoint_step del: unique_endpoint.simps) blast
    qed
  qed
qed

lemma unique_endpoint_fail:
  "list_all endpoint_typed ns \<Longrightarrow> unique_endpoint upper routes ns = Inl f \<Longrightarrow>
     \<exists>j a. j < length ns \<and> routed upper (ns ! j)
        \<and> f = BuildError (UniqueEndpoint (node_method upper (ns ! j)) (node_path (ns ! j)) a (n_id (ns ! j)))
        \<and> (map_of routes (node_route upper (ns ! j)) = Some a
            \<or> (\<exists>i<j. routed upper (ns ! i) \<and> node_route upper (ns ! i) = node_route upper (ns ! j) \<and> n_id (ns ! i) = a))"
proof (induction ns arbitrary: routes)
  case Nil
  then show ?case by simp
next
  case (Cons n ns)
  then have t: "endpoint_typed n" and ts: "list_all endpoint_typed ns" by simp_all
  show ?case
  proof (cases "routed upper n")
    case False
    with Cons.prems t have "unique_endpoint upper routes ns = Inl f" by (simp add: unique_endpoint_step del: unique_endpoint.simps)
    from Cons.IH [OF ts this] obtain j a where
      j: "j < length ns" "routed upper (ns ! j)"
         "f = BuildError (UniqueEndpoint (node_method upper (ns ! j)) (node_path (ns ! j)) a (n_id (ns ! j)))"
         "map_of routes (node_route upper (ns ! j)) = Some a
            \<or> (\<exists>i<j. routed upper (ns ! i) \<and> node_route upper (ns ! i) = node_route upper (ns ! j) \<and> n_id (ns ! i) = a)"
      by blast
    from j(4) have "map_of routes (node_route upper ((n # ns) ! Suc j)) = Some a
            \<or> (\<exists>i<Suc j. routed upper ((n # ns) ! i) \<and> node_route upper ((n # ns) ! i) = node_route upper ((n # ns) ! Suc j) \<and> n_id ((n # ns) ! i) = a)"
    proof
      assume "map_of routes (node_route upper (ns ! j)) = Some a"
      then show ?thesis by simp
    next
      assume "\<exists>i<j. routed upper (ns ! i) \<and> node_route upper (ns ! i) = node_route upper (ns ! j) \<and> n_id (ns ! i) = a"
      then obtain i where "i < j" "routed upper (ns ! i)" "node_route upper (ns ! i) = node_route upper (ns ! j)" "n_id (ns ! i) = a"
        by blast
      then have "Suc i < Suc j \<and> routed upper ((n # ns) ! Suc i) \<and> node_route upper ((n # ns) ! Suc i) = node_route upper ((n # ns) ! Suc j) \<and> n_id ((n # ns) ! Suc i) = a"
        by simp
      then show ?thesis by blast
    qed
    with j(1-3) show ?thesis
      by (intro exI [of _ "Suc j"] exI [of _ a]) simp
  next
    case True
    show ?thesis
    proof (cases "map_of routes (node_route upper n)")
      case (Some a)
      with True t Cons.prems have "f = BuildError (UniqueEndpoint (node_method upper n) (node_path n) a (n_id n))"
        by (simp add: unique_endpoint_step del: unique_endpoint.simps)
      with True Some show ?thesis
        by (intro exI [of _ 0] exI [of _ a]) simp
    next
      case None
      with True t Cons.prems have "unique_endpoint upper ((node_route upper n, n_id n) # routes) ns = Inl f"
        by (simp add: unique_endpoint_step del: unique_endpoint.simps)
      from Cons.IH [OF ts this] obtain j a where
        j: "j < length ns" "routed upper (ns ! j)"
           "f = BuildError (UniqueEndpoint (node_method upper (ns ! j)) (node_path (ns ! j)) a (n_id (ns ! j)))"
           "map_of ((node_route upper n, n_id n) # routes) (node_route upper (ns ! j)) = Some a
              \<or> (\<exists>i<j. routed upper (ns ! i) \<and> node_route upper (ns ! i) = node_route upper (ns ! j) \<and> n_id (ns ! i) = a)"
        by blast
      from j(4) have "map_of routes (node_route upper ((n # ns) ! Suc j)) = Some a
            \<or> (\<exists>i<Suc j. routed upper ((n # ns) ! i) \<and> node_route upper ((n # ns) ! i) = node_route upper ((n # ns) ! Suc j) \<and> n_id ((n # ns) ! i) = a)"
      proof
        assume m: "map_of ((node_route upper n, n_id n) # routes) (node_route upper (ns ! j)) = Some a"
        show ?thesis
        proof (cases "node_route upper (ns ! j) = node_route upper n")
          case True
          with m have "n_id n = a" by simp
          with True \<open>routed upper n\<close> have "0 < Suc j \<and> routed upper ((n # ns) ! 0) \<and> node_route upper ((n # ns) ! 0) = node_route upper ((n # ns) ! Suc j) \<and> n_id ((n # ns) ! 0) = a"
            by simp
          then show ?thesis by blast
        next
          case False
          with m show ?thesis by simp
        qed
      next
        assume "\<exists>i<j. routed upper (ns ! i) \<and> node_route upper (ns ! i) = node_route upper (ns ! j) \<and> n_id (ns ! i) = a"
        then obtain i where "i < j" "routed upper (ns ! i)" "node_route upper (ns ! i) = node_route upper (ns ! j)" "n_id (ns ! i) = a"
          by blast
        then have "Suc i < Suc j \<and> routed upper ((n # ns) ! Suc i) \<and> node_route upper ((n # ns) ! Suc i) = node_route upper ((n # ns) ! Suc j) \<and> n_id ((n # ns) ! Suc i) = a"
          by simp
        then show ?thesis by blast
      qed
      with j(1-3) show ?thesis
        by (intro exI [of _ "Suc j"] exI [of _ a]) simp
    qed
  qed
qed

lemma check_call_not_unique: "check_call upper g e \<noteq> Inl (BuildError (UniqueEndpoint m pth a b))"
  by (auto simp: check_call_def Let_def split: option.splits sum.splits dest: route_candidates_error)

lemma check_calls_not_unique: "check_calls upper g es \<noteq> Inl (BuildError (UniqueEndpoint m pth a b))"
  by (induction es) (auto simp: check_call_not_unique split: sum.splits)


lemma build_of_compile:
  "compile_plan p = Inr g \<Longrightarrow>
     build upper p = (case reject_ambiguity upper g of Inl f \<Rightarrow> Inl f | Inr u \<Rightarrow> Inr (freeze g))"
  by (simp add: build_def)

lemma reject_unique_iff:
  "(reject_ambiguity upper g = Inl (BuildError (UniqueEndpoint m pth a b)))
     = (unique_endpoint upper [] (find_nodes_by_type g ''api_endpoint'') = Inl (BuildError (UniqueEndpoint m pth a b)))"
  by (auto simp: reject_ambiguity_def Let_def check_calls_not_unique split: sum.splits)

text \<open>
  Claim C3, as the code has it.  Let the plan get through the construction of nodes and
  edges, and let the methods and paths of its endpoints be strings.  Then \<open>build\<close> fails
  with \<open>UNIQUE_ENDPOINT\<close> exactly when two \<open>api_endpoint\<close> nodes that both have a non-empty
  method and a non-empty path share the pair (method in upper case, path); the check runs
  over all \<open>api_endpoint\<close> nodes of the graph, and the failure carries that pair and the
  ids of two such nodes, both written into the message.
\<close>

theorem unique_endpoint_rule:
  assumes "compile_plan p = Inr g"
    and "list_all endpoint_typed (find_nodes_by_type g ''api_endpoint'')"
  shows "((\<exists>m pth a b. build upper p = Inl (BuildError (UniqueEndpoint m pth a b)))
            = (\<not> distinct (map (node_route upper) (filter (routed upper) (find_nodes_by_type g ''api_endpoint'')))))
       \<and> (build upper p = Inl (BuildError (UniqueEndpoint m pth a b)) \<longrightarrow>
            (\<exists>i j. i < j \<and> j < length (find_nodes_by_type g ''api_endpoint'')
                \<and> routed upper (find_nodes_by_type g ''api_endpoint'' ! i)
                \<and> routed upper (find_nodes_by_type g ''api_endpoint'' ! j)
                \<and> node_route upper (find_nodes_by_type g ''api_endpoint'' ! i) = (m, pth)
                \<and> node_route upper (find_nodes_by_type g ''api_endpoint'' ! j) = (m, pth)
                \<and> n_id (find_nodes_by_type g ''api_endpoint'' ! i) = a
                \<and> n_id (find_nodes_by_type g ''api_endpoint'' ! j) = b)
            \<and> build_error_message (UniqueEndpoint m pth a b)
                = ''Structural Violation (UNIQUE_ENDPOINT): '' @ m @ '' '' @ py_str pth
                    @ '' declared in multiple resources: '' @ a @ '' and '' @ b)"
proof -
  let ?api = "find_nodes_by_type g ''api_endpoint''"
  have b: "(build upper p = Inl (BuildError (UniqueEndpoint m' pth' a' b')))
             = (unique_endpoint upper [] ?api = Inl (BuildError (UniqueEndpoint m' pth' a' b')))" for m' pth' a' b'
    using assms(1) reject_unique_iff [of upper g m' pth' a' b']
    by (auto simp: build_of_compile split: sum.splits)
  have ok: "(unique_endpoint upper [] ?api = Inr ()) = distinct (map (node_route upper) (filter (routed upper) ?api))"
    using unique_endpoint_ok [OF assms(2), of upper "[]"] by (simp add: list_all_iff)
  have fail: "unique_endpoint upper [] ?api = Inl f \<Longrightarrow>
     \<exists>i j. i < j \<and> j < length ?api \<and> routed upper (?api ! i) \<and> routed upper (?api ! j)
        \<and> node_route upper (?api ! i) = node_route upper (?api ! j)
        \<and> f = BuildError (UniqueEndpoint (node_method upper (?api ! j)) (node_path (?api ! j)) (n_id (?api ! i)) (n_id (?api ! j)))" for f
    using unique_endpoint_fail [OF assms(2), of upper "[]" f] by auto
  have iff: "(\<exists>m pth a b. build upper p = Inl (BuildError (UniqueEndpoint m pth a b)))
            = (\<not> distinct (map (node_route upper) (filter (routed upper) ?api)))"
  proof
    assume "\<exists>m pth a b. build upper p = Inl (BuildError (UniqueEndpoint m pth a b))"
    then have "unique_endpoint upper [] ?api \<noteq> Inr ()" using b by auto
    with ok show "\<not> distinct (map (node_route upper) (filter (routed upper) ?api))" by simp
  next
    assume "\<not> distinct (map (node_route upper) (filter (routed upper) ?api))"
    with ok have "unique_endpoint upper [] ?api \<noteq> Inr ()" by simp
    then obtain f where f: "unique_endpoint upper [] ?api = Inl f"
      by (cases "unique_endpoint upper [] ?api") auto
    from fail [OF f] obtain m' pth' a' b' where "f = BuildError (UniqueEndpoint m' pth' a' b')"
      by blast
    with f b show "\<exists>m pth a b. build upper p = Inl (BuildError (UniqueEndpoint m pth a b))" by blast
  qed
  have named: "build upper p = Inl (BuildError (UniqueEndpoint m pth a b)) \<longrightarrow>
            (\<exists>i j. i < j \<and> j < length ?api \<and> routed upper (?api ! i) \<and> routed upper (?api ! j)
                \<and> node_route upper (?api ! i) = (m, pth) \<and> node_route upper (?api ! j) = (m, pth)
                \<and> n_id (?api ! i) = a \<and> n_id (?api ! j) = b)"
  proof
    assume "build upper p = Inl (BuildError (UniqueEndpoint m pth a b))"
    with b [of m pth a b] have "unique_endpoint upper [] ?api = Inl (BuildError (UniqueEndpoint m pth a b))" by blast
    from fail [OF this] show "\<exists>i j. i < j \<and> j < length ?api \<and> routed upper (?api ! i) \<and> routed upper (?api ! j)
                \<and> node_route upper (?api ! i) = (m, pth) \<and> node_route upper (?api ! j) = (m, pth)
                \<and> n_id (?api ! i) = a \<and> n_id (?api ! j) = b"
      by (auto simp: node_route_def)
  qed
  from iff named show ?thesis by simp
qed

theorem unique_endpoint_rule_witness:
  "\<exists>m pth a b.
     build ascii_upper \<lparr>schema_version = ''1.0'', project_name = ''Duplicate Route Plan'',
            components =
              [\<lparr>comp_id = ''be'', comp_name = ''Backend'', comp_type = ''backend'', comp_path = ''/be'',
                comp_resources =
                  [\<lparr>res_id = ''api1'', res_type = ''api_endpoint'', res_name = ''API 1'', res_description = None,
                    res_properties = [(''method'', JStr ''GET''), (''path'', JStr ''/users'')]\<rparr>,
                   \<lparr>res_id = ''api2'', res_type = ''api_endpoint'', res_name = ''API 2'', res_description = None,
                    res_properties = [(''method'', JStr ''get''), (''path'', JStr ''/users'')]\<rparr>],
                comp_dependencies = []\<rparr>],
            relationships = [], env_vars = []\<rparr>
       = Inl (BuildError (UniqueEndpoint m pth a b))"
proof -
  let ?p = "\<lparr>schema_version = ''1.0'', project_name = ''Duplicate Route Plan'',
            components =
              [\<lparr>comp_id = ''be'', comp_name = ''Backend'', comp_type = ''backend'', comp_path = ''/be'',
                comp_resources =
                  [\<lparr>res_id = ''api1'', res_type = ''api_endpoint'', res_name = ''API 1'', res_description = None,
                    res_properties = [(''method'', JStr ''GET''), (''path'', JStr ''/users'')]\<rparr>,
                   \<lparr>res_id = ''api2'', res_type = ''api_endpoint'', res_name = ''API 2'', res_description = None,
                    res_properties = [(''method'', JStr ''get''), (''path'', JStr ''/users'')]\<rparr>],
                comp_dependencies = []\<rparr>],
            relationships = [], env_vars = []\<rparr>"
  have "\<exists>g. compile_plan ?p = Inr g
          \<and> find_nodes_by_type g ''api_endpoint''
              = [\<lparr>n_id = ''api1'', n_type = ''api_endpoint'', n_name = ''API 1'',
                  n_properties = [(''method'', JStr ''GET''), (''path'', JStr ''/users'')]\<rparr>,
                 \<lparr>n_id = ''api2'', n_type = ''api_endpoint'', n_name = ''API 2'',
                  n_properties = [(''method'', JStr ''get''), (''path'', JStr ''/users'')]\<rparr>]"
    by (simp add: build_eval graph_eval Let_def)
  then obtain g where c: "compile_plan ?p = Inr g"
    and api: "find_nodes_by_type g ''api_endpoint''
              = [\<lparr>n_id = ''api1'', n_type = ''api_endpoint'', n_name = ''API 1'',
                  n_properties = [(''method'', JStr ''GET''), (''path'', JStr ''/users'')]\<rparr>,
                 \<lparr>n_id = ''api2'', n_type = ''api_endpoint'', n_name = ''API 2'',
                  n_properties = [(''method'', JStr ''get''), (''path'', JStr ''/users'')]\<rparr>]"
    by blast
  have typed: "list_all endpoint_typed (find_nodes_by_type g ''api_endpoint'')"
    by (simp add: api endpoint_typed_def dict_get_default_def)
  have dup: "\<not> distinct (map (node_route ascii_upper) (filter (routed ascii_upper) (find_nodes_by_type g ''api_endpoint'')))"
    by (simp add: api routed_def node_route_def node_method_def node_path_def dict_get_default_def
        ascii_upper_def ascii_upper_char_def)
  from unique_endpoint_rule [OF c typed] dup show ?thesis by blast
qed

text \<open>
  Claim C3 as stated fails: endpoints without a method are skipped by the guard
  \<open>if method and path\<close>.  Two endpoints at \<open>/users\<close> that declare no method share the pair
  (empty method, \<open>/users\<close>), and the plan builds.
\<close>

theorem shared_route_without_method_builds:
  "(case build ascii_upper \<lparr>schema_version = ''1.0'', project_name = ''No Method Plan'',
            components =
              [\<lparr>comp_id = ''be'', comp_name = ''Backend'', comp_type = ''backend'', comp_path = ''/be'',
                comp_resources =
                  [\<lparr>res_id = ''api1'', res_type = ''api_endpoint'', res_name = ''API 1'', res_description = None,
                    res_properties = [(''path'', JStr ''/users'')]\<rparr>,
                   \<lparr>res_id = ''api2'', res_type = ''api_endpoint'', res_name = ''API 2'', res_description = None,
                    res_properties = [(''path'', JStr ''/users'')]\<rparr>],
                comp_dependencies = []\<rparr>],
            relationships = [], env_vars = []\<rparr> of
      Inl f \<Rightarrow> []
    | Inr g \<Rightarrow> map (\<lambda>n. (n_id n, node_route ascii_upper n)) (find_nodes_by_type g ''api_endpoint''))
   = [(''api1'', ([], JStr ''/users'')), (''api2'', ([], JStr ''/users''))]"
  by (simp add: build_eval graph_eval node_route_def node_method_def node_path_def dict_get_default_def
      ascii_upper_def Let_def)


lemma adj_add_set:
  "(w, es) \<in> set (adj_add adj v a) \<Longrightarrow> w = v \<or> (w, es) \<in> set adj"
  by (induction adj v a rule: adj_add.induct) (auto split: if_splits)

lemma closed_add_node:
  "graph_closed g \<Longrightarrow> add_node g i ty nm props = (None, g') \<Longrightarrow> graph_closed g'"
proof -
  assume c: "graph_closed g" and a: "add_node g i ty nm props = (None, g')"
  from a have g': "g' = g\<lparr>g_nodes := nodes_put (g_nodes g) \<lparr>n_id = i, n_type = ty, n_name = nm, n_properties = props\<rparr>\<rparr>"
    by (simp add: add_node_def split: if_splits)
  have "has_node g j \<Longrightarrow> has_node g' j" for j
    unfolding g' has_node_def by (simp add: nodes_put_ids)
  with c show ?thesis
    unfolding graph_closed_def g' by simp
qed

lemma closed_add_edge:
  "graph_closed g \<Longrightarrow> add_edge g s t ty md = (None, g') \<Longrightarrow> graph_closed g'"
proof -
  assume c: "graph_closed g" and a: "add_edge g s t ty md = (None, g')"
  from a have hs: "has_node g s" and ht: "has_node g t"
    and g': "g' = g\<lparr>g_succ := (g_succ g)(s := adj_add (g_succ g s) t \<lparr>a_type = ty, a_metadata = md\<rparr>),
                     g_pred := (g_pred g)(t := adj_add (g_pred g t) s \<lparr>a_type = ty, a_metadata = md\<rparr>)\<rparr>"
    by (auto simp: add_edge_def split: if_splits)
  have hn: "has_node g' j = has_node g j" for j
    unfolding g' has_node_def by simp
  show ?thesis
    unfolding graph_closed_def
  proof (intro allI impI)
    fix u v es
    assume m: "(v, es) \<in> set (g_succ g' u)"
    show "has_node g' u \<and> has_node g' v"
    proof (cases "u = s")
      case True
      with m g' have "(v, es) \<in> set (adj_add (g_succ g s) t \<lparr>a_type = ty, a_metadata = md\<rparr>)" by simp
      then have "v = t \<or> (v, es) \<in> set (g_succ g s)" by (rule adj_add_set)
      with c hs ht True show ?thesis unfolding hn graph_closed_def by blast
    next
      case False
      with m g' have "(v, es) \<in> set (g_succ g u)" by simp
      with c show ?thesis unfolding hn graph_closed_def by blast
    qed
  qed
qed

lemma closed_add_resources:
  "graph_closed g \<Longrightarrow> add_resources g cid rs = Inr g' \<Longrightarrow> graph_closed g'"
proof (induction rs arbitrary: g)
  case Nil
  then show ?case by simp
next
  case (Cons r rs)
  from Cons.prems(2) obtain g1 g2 where
    a: "add_node g (res_id r) (normalize_resource_type (res_type r)) (res_name r) (res_properties r) = (None, g1)"
    and b: "add_edge g1 cid (res_id r) ''contains'' None = (None, g2)"
    and c: "add_resources g2 cid rs = Inr g'"
    by (auto simp: Let_def split: if_splits prod.splits option.splits)
  from closed_add_edge [OF closed_add_node [OF Cons.prems(1) a] b] Cons.IH c show ?case by blast
qed

lemma closed_add_components:
  "graph_closed g \<Longrightarrow> add_components g cs = Inr g' \<Longrightarrow> graph_closed g'"
proof (induction cs arbitrary: g)
  case Nil
  then show ?case by simp
next
  case (Cons c cs)
  from Cons.prems(2) obtain g1 g2 where
    a: "add_node g (comp_id c) ''component'' (comp_name c)
          [(''path'', JStr (comp_path c)), (''comp_type'', JStr (comp_type c))] = (None, g1)"
    and b: "add_resources g1 (comp_id c) (comp_resources c) = Inr g2"
    and c: "add_components g2 cs = Inr g'"
    by (auto split: if_splits prod.splits option.splits sum.splits)
  from closed_add_resources [OF closed_add_node [OF Cons.prems(1) a] b] Cons.IH c show ?case by blast
qed

lemma closed_add_relationships:
  "graph_closed g \<Longrightarrow> add_relationships g rs = Inr g' \<Longrightarrow> graph_closed g'"
proof (induction rs arbitrary: g)
  case Nil
  then show ?case by simp
next
  case (Cons r rs)
  from Cons.prems(2) obtain g1 where
    a: "add_edge g (rel_source r) (rel_target r) (rel_type r) (Some (rel_metadata r)) = (None, g1)"
    and b: "add_relationships g1 rs = Inr g'"
    by (auto split: if_splits prod.splits option.splits graph_error.splits)
  from closed_add_edge [OF Cons.prems(1) a] Cons.IH b show ?case by blast
qed

lemma closed_compile: "compile_plan p = Inr g \<Longrightarrow> graph_closed g"
proof -
  assume "compile_plan p = Inr g"
  then obtain g1 where a: "add_components empty_graph (components p) = Inr g1"
    and b: "add_relationships g1 (relationships p) = Inr g"
    by (auto simp: compile_plan_def split: sum.splits)
  have "graph_closed empty_graph" by (simp add: graph_closed_def empty_graph_def)
  from closed_add_relationships [OF closed_add_components [OF this a] b] show ?thesis .
qed

lemma closed_out_edges:
  "graph_closed g \<Longrightarrow> e \<in> set (out_edges g u) \<Longrightarrow> has_node g (e_source e) \<and> has_node g (e_target e)"
  by (fastforce simp: graph_closed_def out_edges_def mk_edge_def)

lemma closed_edges:
  "graph_closed g \<Longrightarrow> e \<in> set (edges g) \<Longrightarrow> has_node g (e_source e) \<and> has_node g (e_target e)"
  by (auto simp: edges_def dest: closed_out_edges)

lemma has_node_get: "has_node g i \<Longrightarrow> \<exists>n. get_node g i = Some n \<and> n_id n = i"
proof -
  assume "has_node g i"
  then have "\<exists>n\<in>set (g_nodes g). n_id n = i" by (auto simp: has_node_def)
  then obtain n where "find (\<lambda>n. n_id n = i) (g_nodes g) = Some n"
    by (cases "find (\<lambda>n. n_id n = i) (g_nodes g)") (auto simp: find_None_iff)
  moreover from this have "n_id n = i" by (auto simp: find_Some_iff)
  ultimately show ?thesis by (simp add: get_node_def)
qed


lemma collect_total:
  "(\<And>x. x \<in> set xs \<Longrightarrow> f x = Inr (h x)) \<Longrightarrow> collect f xs = Inr (List.map_filter h xs)"
  by (induction xs) (auto simp: List.map_filter_simps split: option.splits)

lemma get_node_mem: "get_node g i = Some n \<Longrightarrow> n \<in> set (g_nodes g) \<and> n_id n = i"
  by (auto simp: get_node_def find_Some_iff)

lemma py_upper_typed: "key_is_str v \<Longrightarrow> py_upper upper v = Inr (upper (key_str v))"
  by (cases v) auto

lemma route_candidate_typed:
  assumes "get_node g cid = Some child"
    and "n_type child = ''api_endpoint'' \<longrightarrow> endpoint_typed child"
    and "key_is_str cm \<or> cm = JNull"
  shows "route_candidate upper g cp cm cid = Inr (if is_candidate upper cp cm child then Some child else None)"
proof (cases "py_truthy cm")
  case False
  with assms(1) show ?thesis
    by (simp add: route_candidate_def is_candidate_def)
next
  case True
  with assms(3) have cm: "py_upper upper cm = Inr (upper (key_str cm))"
    by (auto simp: py_upper_typed)
  show ?thesis
  proof (cases "n_type child = ''api_endpoint''")
    case False
    with assms(1) show ?thesis by (simp add: route_candidate_def is_candidate_def)
  next
    case ep: True
    with assms(2) have "py_upper upper (dict_get_default (n_properties child) ''method'' (JStr []))
        = Inr (node_method upper child)"
      by (simp add: endpoint_typed_def py_upper_typed node_method_def)
    with assms(1) cm True show ?thesis
      by (simp add: route_candidate_def is_candidate_def)
  qed
qed

lemma map_filter_filter:
  "List.map_filter (\<lambda>x. case h x of None \<Rightarrow> None | Some y \<Rightarrow> (if P y then Some y else None)) xs
     = filter P (List.map_filter h xs)"
  by (induction xs) (auto simp: List.map_filter_simps split: option.splits)

lemma route_candidates_typed:
  assumes closed: "graph_closed g"
    and typed: "list_all endpoint_typed (find_nodes_by_type g ''api_endpoint'')"
    and cm: "key_is_str cm \<or> cm = JNull"
  shows "route_candidates upper g t cp cm = Inr (candidates upper g t cp cm)"
proof -
  let ?ids = "map e_target (find_outgoing_edges g (n_id t) (Some ''contains''))"
  let ?h = "\<lambda>cid. case get_node g cid of None \<Rightarrow> None
                | Some child \<Rightarrow> (if is_candidate upper cp cm child then Some child else None)"
  have "route_candidate upper g cp cm cid = Inr (?h cid)" if "cid \<in> set ?ids" for cid
  proof -
    from that closed have "has_node g cid"
      by (auto simp: find_outgoing_edges_def dest: closed_out_edges split: if_splits)
    then obtain child where c: "get_node g cid = Some child"
      using has_node_get by blast
    from get_node_mem [OF c] typed have "n_type child = ''api_endpoint'' \<longrightarrow> endpoint_typed child"
      by (auto simp: find_nodes_by_type_def list_all_iff)
    from route_candidate_typed [OF c this cm] c show ?thesis by simp
  qed
  then have "collect (route_candidate upper g cp cm) ?ids = Inr (List.map_filter ?h ?ids)"
    by (rule collect_total)
  then show ?thesis
    by (simp add: route_candidates_def candidates_def children_def map_filter_filter Let_def)
qed

lemma check_call_typed:
  assumes closed: "graph_closed g"
    and typed: "list_all endpoint_typed (find_nodes_by_type g ''api_endpoint'')"
    and e: "e \<in> set (edges g)" and ct: "call_typed e"
  shows "check_call upper g e = (if ambiguous_call upper g e then Inl (BuildError (ambiguity_error upper g e)) else Inr ())"
proof -
  from closed_edges [OF closed e] obtain t where t: "get_node g (e_target e) = Some t"
    using has_node_get by blast
  from ct have cm: "key_is_str (metadata_get (e_metadata e) ''method'') \<or> metadata_get (e_metadata e) ''method'' = JNull"
    by (simp add: call_typed_def)
  note rc = route_candidates_typed [OF closed typed cm, of upper t "metadata_get (e_metadata e) ''path''"]
  show ?thesis
    by (simp add: check_call_def ambiguous_call_def ambiguity_error_def t rc Let_def)
qed

lemma check_calls_typed:
  assumes closed: "graph_closed g"
    and typed: "list_all endpoint_typed (find_nodes_by_type g ''api_endpoint'')"
  shows "set es \<subseteq> set (edges g) \<Longrightarrow> list_all call_typed es \<Longrightarrow>
     check_calls upper g es = (case find (ambiguous_call upper g) es of
                           None \<Rightarrow> Inr ()
                         | Some e \<Rightarrow> Inl (BuildError (ambiguity_error upper g e)))"
proof (induction es)
  case Nil
  then show ?case by simp
next
  case (Cons e es)
  then have "e \<in> set (edges g)" and "call_typed e" by simp_all
  from check_call_typed [OF closed typed this] Cons show ?case by simp
qed


lemma find_list_ex: "(find P xs \<noteq> None) = list_ex P xs"
  by (induction xs) auto

text \<open>
  Claim C7, as the code has it.  Let the plan get through the construction of nodes and
  edges, let the methods and paths of its endpoints be strings and the methods of its calls
  be strings or missing.  Then \<open>build\<close> fails with \<open>NO_AMBIGUOUS_ROUTE\<close> exactly when the
  \<open>UNIQUE_ENDPOINT\<close> pass finds nothing and some \<open>calls\<close> edge with a non-empty path to a
  component has more than one candidate; the failure names the path of the first such edge,
  the called component and the ids of all its candidates.  The plan of the test (a call to
  \<open>/users\<close> without method, children \<open>GET /users\<close> and \<open>POST /users\<close>) fails this way.
\<close>

theorem ambiguous_route_rule:
  assumes "compile_plan p = Inr g"
    and "list_all endpoint_typed (find_nodes_by_type g ''api_endpoint'')"
    and "list_all call_typed (edges g)"
  shows "((\<exists>cp nm ids. build upper p = Inl (BuildError (NoAmbiguousRoute cp nm ids)))
            = (distinct (map (node_route upper) (filter (routed upper) (find_nodes_by_type g ''api_endpoint'')))
               \<and> list_ex (ambiguous_call upper g) (edges g)))
       \<and> (build upper p = Inl (BuildError (NoAmbiguousRoute cp nm ids)) \<longrightarrow>
            (\<exists>e t. find (ambiguous_call upper g) (edges g) = Some e
                \<and> get_node g (e_target e) = Some t
                \<and> cp = metadata_get (e_metadata e) ''path''
                \<and> nm = n_name t
                \<and> ids = map n_id (candidates upper g t cp (metadata_get (e_metadata e) ''method''))
                \<and> 1 < length ids)
            \<and> build_error_message (NoAmbiguousRoute cp nm ids)
                = ''Structural Violation (NO_AMBIGUOUS_ROUTE): Call to '' @ py_str cp @ '' on ''
                    @ nm @ '' is ambiguous. Matches: '' @ py_str (JList (map JStr ids)))"
proof -
  let ?api = "find_nodes_by_type g ''api_endpoint''"
  note closed = closed_compile [OF assms(1)]
  have calls: "check_calls upper g (edges g) = (case find (ambiguous_call upper g) (edges g) of
                           None \<Rightarrow> Inr ()
                         | Some e \<Rightarrow> Inl (BuildError (ambiguity_error upper g e)))"
    using check_calls_typed [OF closed assms(2) _ assms(3)] by simp
  have ok: "(unique_endpoint upper [] ?api = Inr ()) = distinct (map (node_route upper) (filter (routed upper) ?api))"
    using unique_endpoint_ok [OF assms(2), of upper "[]"] by (simp add: list_all_iff)
  have amb: "find (ambiguous_call upper g) (edges g) = Some e \<Longrightarrow>
      \<exists>t. get_node g (e_target e) = Some t
         \<and> ambiguity_error upper g e = NoAmbiguousRoute (metadata_get (e_metadata e) ''path'') (n_name t)
              (map n_id (candidates upper g t (metadata_get (e_metadata e) ''path'') (metadata_get (e_metadata e) ''method'')))
         \<and> 1 < length (candidates upper g t (metadata_get (e_metadata e) ''path'') (metadata_get (e_metadata e) ''method''))" for e
  proof -
    assume "find (ambiguous_call upper g) (edges g) = Some e"
    then have "ambiguous_call upper g e" by (auto simp: find_Some_iff)
    then show ?thesis
      by (auto simp: ambiguous_call_def ambiguity_error_def Let_def split: option.splits)
  qed
  show ?thesis
  proof (cases "distinct (map (node_route upper) (filter (routed upper) ?api))")
    case True
    with ok have u: "unique_endpoint upper [] ?api = Inr ()" by simp
    have b: "build upper p = (case find (ambiguous_call upper g) (edges g) of
                           None \<Rightarrow> Inr (freeze g)
                         | Some e \<Rightarrow> Inl (BuildError (ambiguity_error upper g e)))"
      by (simp add: build_of_compile [OF assms(1)] reject_ambiguity_def u calls Let_def split: option.splits)
    show ?thesis
    proof (cases "find (ambiguous_call upper g) (edges g)")
      case None
      then have "\<not> list_ex (ambiguous_call upper g) (edges g)"
        using find_list_ex [of "ambiguous_call upper g" "edges g"] by simp
      with None b True show ?thesis by simp
    next
      case (Some e)
      then have ex: "list_ex (ambiguous_call upper g) (edges g)"
        using find_list_ex [of "ambiguous_call upper g" "edges g"] by simp
      from amb [OF Some] obtain t where t: "get_node g (e_target e) = Some t"
        and err: "ambiguity_error upper g e = NoAmbiguousRoute (metadata_get (e_metadata e) ''path'') (n_name t)
              (map n_id (candidates upper g t (metadata_get (e_metadata e) ''path'') (metadata_get (e_metadata e) ''method'')))"
        and len: "1 < length (candidates upper g t (metadata_get (e_metadata e) ''path'') (metadata_get (e_metadata e) ''method''))"
        by blast
      from b Some err have b': "build upper p = Inl (BuildError (NoAmbiguousRoute (metadata_get (e_metadata e) ''path'') (n_name t)
              (map n_id (candidates upper g t (metadata_get (e_metadata e) ''path'') (metadata_get (e_metadata e) ''method'')))))"
        by simp
      with True ex Some t len show ?thesis by auto
    qed
  next
    case False
    with ok have "unique_endpoint upper [] ?api \<noteq> Inr ()" by simp
    then obtain f where f: "unique_endpoint upper [] ?api = Inl f"
      by (cases "unique_endpoint upper [] ?api") auto
    from unique_endpoint_fail [OF assms(2) f] obtain m' pth' a' b' where
      "f = BuildError (UniqueEndpoint m' pth' a' b')" by blast
    with f have "build upper p = Inl (BuildError (UniqueEndpoint m' pth' a' b'))"
      by (simp add: build_of_compile [OF assms(1)] reject_ambiguity_def Let_def)
    with False show ?thesis by simp
  qed
qed

theorem ambiguous_route_rule_witness:
  "build ascii_upper \<lparr>schema_version = ''1.0'', project_name = ''Ambiguous Call Plan'',
          components =
            [\<lparr>comp_id = ''fe'', comp_name = ''Frontend'', comp_type = ''frontend'', comp_path = ''/fe'',
              comp_resources = [], comp_dependencies = []\<rparr>,
             \<lparr>comp_id = ''be'', comp_name = ''Backend'', comp_type = ''backend'', comp_path = ''/be'',
              comp_resources =
                [\<lparr>res_id = ''get_u'', res_type = ''api_endpoint'', res_name = ''Get Users'', res_description = None,
                  res_properties = [(''method'', JStr ''GET''), (''path'', JStr ''/users'')]\<rparr>,
                 \<lparr>res_id = ''post_u'', res_type = ''api_endpoint'', res_name = ''Post Users'', res_description = None,
                  res_properties = [(''method'', JStr ''POST''), (''path'', JStr ''/users'')]\<rparr>],
              comp_dependencies = []\<rparr>],
          relationships =
            [\<lparr>rel_source = ''fe'', rel_target = ''be'', rel_type = ''calls'',
              rel_metadata = [(''path'', JStr ''/users'')]\<rparr>],
          env_vars = []\<rparr>
     = Inl (BuildError (NoAmbiguousRoute (JStr ''/users'') ''Backend'' [''get_u'', ''post_u'']))"
proof -
  let ?p = "\<lparr>schema_version = ''1.0'', project_name = ''Ambiguous Call Plan'',
          components =
            [\<lparr>comp_id = ''fe'', comp_name = ''Frontend'', comp_type = ''frontend'', comp_path = ''/fe'',
              comp_resources = [], comp_dependencies = []\<rparr>,
             \<lparr>comp_id = ''be'', comp_name = ''Backend'', comp_type = ''backend'', comp_path = ''/be'',
              comp_resources =
                [\<lparr>res_id = ''get_u'', res_type = ''api_endpoint'', res_name = ''Get Users'', res_description = None,
                  res_properties = [(''method'', JStr ''GET''), (''path'', JStr ''/users'')]\<rparr>,
                 \<lparr>res_id = ''post_u'', res_type = ''api_endpoint'', res_name = ''Post Users'', res_description = None,
                  res_properties = [(''method'', JStr ''POST''), (''path'', JStr ''/users'')]\<rparr>],
              comp_dependencies = []\<rparr>],
          relationships =
            [\<lparr>rel_source = ''fe'', rel_target = ''be'', rel_type = ''calls'',
              rel_metadata = [(''path'', JStr ''/users'')]\<rparr>],
          env_vars = []\<rparr>"
  let ?call = "\<lparr>e_source = ''fe'', e_target = ''be'', e_type = ''calls'',
                e_metadata = Some [(''path'', JStr ''/users'')]\<rparr>"
  let ?be = "\<lparr>n_id = ''be'', n_type = ''component'', n_name = ''Backend'',
              n_properties = [(''path'', JStr ''/be''), (''comp_type'', JStr ''backend'')]\<rparr>"
  have "\<exists>g. compile_plan ?p = Inr g
          \<and> find_nodes_by_type g ''api_endpoint''
              = [\<lparr>n_id = ''get_u'', n_type = ''api_endpoint'', n_name = ''Get Users'',
                  n_properties = [(''method'', JStr ''GET''), (''path'', JStr ''/users'')]\<rparr>,
                 \<lparr>n_id = ''post_u'', n_type = ''api_endpoint'', n_name = ''Post Users'',
                  n_properties = [(''method'', JStr ''POST''), (''path'', JStr ''/users'')]\<rparr>]
          \<and> edges g = [?call,
                \<lparr>e_source = ''be'', e_target = ''get_u'', e_type = ''contains'', e_metadata = None\<rparr>,
                \<lparr>e_source = ''be'', e_target = ''post_u'', e_type = ''contains'', e_metadata = None\<rparr>]
          \<and> get_node g ''be'' = Some ?be
          \<and> candidates ascii_upper g ?be (JStr ''/users'') JNull
              = [\<lparr>n_id = ''get_u'', n_type = ''api_endpoint'', n_name = ''Get Users'',
                  n_properties = [(''method'', JStr ''GET''), (''path'', JStr ''/users'')]\<rparr>,
                 \<lparr>n_id = ''post_u'', n_type = ''api_endpoint'', n_name = ''Post Users'',
                  n_properties = [(''method'', JStr ''POST''), (''path'', JStr ''/users'')]\<rparr>]"
    by (simp add: build_eval graph_eval Let_def candidates_def children_def is_candidate_def
        List.map_filter_simps dict_get_def)
  then obtain g where c: "compile_plan ?p = Inr g"
    and api: "find_nodes_by_type g ''api_endpoint''
              = [\<lparr>n_id = ''get_u'', n_type = ''api_endpoint'', n_name = ''Get Users'',
                  n_properties = [(''method'', JStr ''GET''), (''path'', JStr ''/users'')]\<rparr>,
                 \<lparr>n_id = ''post_u'', n_type = ''api_endpoint'', n_name = ''Post Users'',
                  n_properties = [(''method'', JStr ''POST''), (''path'', JStr ''/users'')]\<rparr>]"
    and es: "edges g = [?call,
                \<lparr>e_source = ''be'', e_target = ''get_u'', e_type = ''contains'', e_metadata = None\<rparr>,
                \<lparr>e_source = ''be'', e_target = ''post_u'', e_type = ''contains'', e_metadata = None\<rparr>]"
    and be: "get_node g ''be'' = Some ?be"
    and cand: "candidates ascii_upper g ?be (JStr ''/users'') JNull
              = [\<lparr>n_id = ''get_u'', n_type = ''api_endpoint'', n_name = ''Get Users'',
                  n_properties = [(''method'', JStr ''GET''), (''path'', JStr ''/users'')]\<rparr>,
                 \<lparr>n_id = ''post_u'', n_type = ''api_endpoint'', n_name = ''Post Users'',
                  n_properties = [(''method'', JStr ''POST''), (''path'', JStr ''/users'')]\<rparr>]"
    by blast
  have typed: "list_all endpoint_typed (find_nodes_by_type g ''api_endpoint'')"
    by (simp add: api endpoint_typed_def dict_get_default_def)
  have ct: "list_all call_typed (edges g)"
    by (simp add: es call_typed_def metadata_get_def dict_get_def)
  have d: "distinct (map (node_route ascii_upper) (filter (routed ascii_upper) (find_nodes_by_type g ''api_endpoint'')))"
    by (simp add: api routed_def node_route_def node_method_def node_path_def dict_get_default_def
        ascii_upper_def ascii_upper_char_def)
  have a: "ambiguous_call ascii_upper g ?call"
    by (simp add: ambiguous_call_def metadata_get_def dict_get_def be cand)
  then have ex: "list_ex (ambiguous_call ascii_upper g) (edges g)" and f: "find (ambiguous_call ascii_upper g) (edges g) = Some ?call"
    by (simp_all add: es)
  from ambiguous_route_rule [OF c typed ct] d ex
  obtain cp nm ids where b: "build ascii_upper ?p = Inl (BuildError (NoAmbiguousRoute cp nm ids))"
    by blast
  with ambiguous_route_rule [OF c typed ct, of ascii_upper cp nm ids] f be cand
  have "cp = JStr ''/users'' \<and> nm = ''Backend'' \<and> ids = [''get_u'', ''post_u'']"
    by (auto simp: metadata_get_def dict_get_def)
  with b show ?thesis by simp
qed

text \<open>
  Claim C7 as stated fails: the \<open>UNIQUE_ENDPOINT\<close> pass runs first.  A call \<open>GET /users\<close> to
  a component with the children \<open>GET /users\<close> and \<open>get /users\<close> has two candidates upper, and
  \<open>build\<close> fails with \<open>UNIQUE_ENDPOINT\<close>, not with \<open>NO_AMBIGUOUS_ROUTE\<close>.
\<close>

theorem unique_endpoint_preempts_ambiguity:
  "build ascii_upper \<lparr>schema_version = ''1.0'', project_name = ''Two GET'',
          components =
            [\<lparr>comp_id = ''fe'', comp_name = ''Frontend'', comp_type = ''frontend'', comp_path = ''/fe'',
              comp_resources = [], comp_dependencies = []\<rparr>,
             \<lparr>comp_id = ''be'', comp_name = ''Backend'', comp_type = ''backend'', comp_path = ''/be'',
              comp_resources =
                [\<lparr>res_id = ''u1'', res_type = ''api_endpoint'', res_name = ''Users 1'', res_description = None,
                  res_properties = [(''method'', JStr ''GET''), (''path'', JStr ''/users'')]\<rparr>,
                 \<lparr>res_id = ''u2'', res_type = ''api_endpoint'', res_name = ''Users 2'', res_description = None,
                  res_properties = [(''method'', JStr ''get''), (''path'', JStr ''/users'')]\<rparr>],
              comp_dependencies = []\<rparr>],
          relationships =
            [\<lparr>rel_source = ''fe'', rel_target = ''be'', rel_type = ''calls'',
              rel_metadata = [(''path'', JStr ''/users''), (''method'', JStr ''GET'')]\<rparr>],
          env_vars = []\<rparr>
     = Inl (BuildError (UniqueEndpoint ''GET'' (JStr ''/users'') ''u1'' ''u2''))
   \<and> (case compile_plan \<lparr>schema_version = ''1.0'', project_name = ''Two GET'',
          components =
            [\<lparr>comp_id = ''fe'', comp_name = ''Frontend'', comp_type = ''frontend'', comp_path = ''/fe'',
              comp_resources = [], comp_dependencies = []\<rparr>,
             \<lparr>comp_id = ''be'', comp_name = ''Backend'', comp_type = ''backend'', comp_path = ''/be'',
              comp_resources =
                [\<lparr>res_id = ''u1'', res_type = ''api_endpoint'', res_name = ''Users 1'', res_description = None,
                  res_properties = [(''method'', JStr ''GET''), (''path'', JStr ''/users'')]\<rparr>,
                 \<lparr>res_id = ''u2'', res_type = ''api_endpoint'', res_name = ''Users 2'', res_description = None,
                  res_properties = [(''method'', JStr ''get''), (''path'', JStr ''/users'')]\<rparr>],
              comp_dependencies = []\<rparr>],
          relationships =
            [\<lparr>rel_source = ''fe'', rel_target = ''be'', rel_type = ''calls'',
              rel_metadata = [(''path'', JStr ''/users''), (''method'', JStr ''GET'')]\<rparr>],
          env_vars = []\<rparr> of
        Inl f \<Rightarrow> []
      | Inr g \<Rightarrow>
          map (\<lambda>e. (e_source e, e_target e, e_type e,
                     case get_node g (e_target e) of
                       None \<Rightarrow> []
                     | Some t \<Rightarrow> map n_id (candidates ascii_upper g t (metadata_get (e_metadata e) ''path'')
                                              (metadata_get (e_metadata e) ''method''))))
            (filter (\<lambda>e. e_type e = ''calls'') (edges g)))
     = [(''fe'', ''be'', ''calls'', [''u1'', ''u2''])]"
  by (simp add: build_eval graph_eval Let_def candidates_def children_def is_candidate_def
      List.map_filter_simps dict_get_def dict_get_default_def metadata_get_def node_method_def
      ascii_upper_def ascii_upper_char_def)

section \<open>Properties of the canonicalizer\<close>

lemma sort_key_perm:
  assumes "mset xs = mset ys"
    and "\<And>x y. x \<in> set xs \<Longrightarrow> y \<in> set xs \<Longrightarrow> f x = f y \<Longrightarrow> x = y"
  shows "sort_key f xs = sort_key f ys"
proof (rule properties_for_sort_key)
  show "mset (sort_key f ys) = mset xs" using assms(1) by simp
  show "sorted (map f (sort_key f ys))" by (rule sorted_sort_key)
  fix k assume "k \<in> set (sort_key f ys)"
  then have k: "k \<in> set xs" using assms(1) by (metis mset_eq_setD set_sort)
  have "filter (\<lambda>x. f k = f x) zs = filter (\<lambda>x. k = x) zs" if "set zs \<subseteq> set xs" for zs
    using that assms(2) k by (intro filter_cong) auto
  moreover have "set (sort_key f ys) \<subseteq> set xs" using assms(1) by (metis mset_eq_setD set_sort subset_refl)
  ultimately have "filter (\<lambda>x. f k = f x) (sort_key f ys) = filter (\<lambda>x. k = x) (sort_key f ys)"
    and "filter (\<lambda>x. f k = f x) xs = filter (\<lambda>x. k = x) xs" by simp_all
  moreover have "filter (\<lambda>x. k = x) (sort_key f ys) = filter (\<lambda>x. k = x) xs"
  proof -
    have "mset (filter (\<lambda>x. k = x) (sort_key f ys)) = mset (filter (\<lambda>x. k = x) xs)"
      using assms(1) by simp
    then have "size (mset (filter (\<lambda>x. k = x) (sort_key f ys))) = size (mset (filter (\<lambda>x. k = x) xs))"
      by (rule arg_cong)
    then have "length (filter (\<lambda>x. k = x) (sort_key f ys)) = length (filter (\<lambda>x. k = x) xs)"
      by (simp only: size_mset)
    moreover have "filter (\<lambda>x. k = x) zs = replicate (length (filter (\<lambda>x. k = x) zs)) k" for zs :: "'a list"
      by (induction zs) auto
    ultimately show ?thesis by metis
  qed
  ultimately show "filter (\<lambda>x. f k = f x) (sort_key f ys) = filter (\<lambda>x. f k = f x) xs" by simp
qed

lemma insort_lt_insort_key:
  "(\<And>y. y \<in> set ys \<Longrightarrow> lt y x = (r y < r x)) \<Longrightarrow> insort_lt lt x ys = insort_key r x ys"
  by (induction ys) (auto simp: not_le)

lemma sort_lt_Cons: "sort_lt lt (x # xs) = insort_lt lt x (sort_lt lt xs)"
  by (simp add: sort_lt_def)

lemma sort_lt_sort_key:
  "(\<And>x y. x \<in> set xs \<Longrightarrow> y \<in> set xs \<Longrightarrow> lt y x = (r y < r x)) \<Longrightarrow>
     sort_lt lt xs = sort_key r xs"
proof (induction xs)
  case Nil
  then show ?case by (simp add: sort_lt_def)
next
  case (Cons x xs)
  then have "sort_lt lt xs = sort_key r xs" by simp
  moreover have "insort_lt lt x (sort_key r xs) = insort_key r x (sort_key r xs)"
    by (rule insort_lt_insort_key) (simp add: Cons.prems)
  ultimately show ?case by (simp add: sort_lt_Cons)
qed

lemma comparable_strings: "key_is_str a \<Longrightarrow> key_is_str b \<Longrightarrow> comparable a b"
  by (cases a; cases b) (simp_all add: comparable_def)

lemma pairwise_comparable_strings: "list_all key_is_str ks \<Longrightarrow> pairwise_comparable ks"
  by (induction ks) (auto simp: list_all_iff comparable_strings)

lemma py_lt_strings: "key_is_str a \<Longrightarrow> key_is_str b \<Longrightarrow> (py_lt a b = Inr True) = (key_str a < key_str b)"
  by (cases a; cases b) simp_all

lemma py_sorted_strings:
  "list_all (\<lambda>x. key_is_str (f x)) xs \<Longrightarrow> py_sorted f xs = Inr (sort_key (\<lambda>x. key_str (f x)) xs)"
proof -
  assume a: "list_all (\<lambda>x. key_is_str (f x)) xs"
  then have "pairwise_comparable (map f xs)"
    by (intro pairwise_comparable_strings) (simp add: list_all_iff)
  moreover have "sort_lt (\<lambda>x y. py_lt (f x) (f y) = Inr True) xs = sort_key (\<lambda>x. key_str (f x)) xs"
    by (rule sort_lt_sort_key) (use a in \<open>simp add: list_all_iff py_lt_strings\<close>)
  ultimately show ?thesis by (simp add: py_sorted_def)
qed

lemma canon_list_strings:
  "list_all (\<lambda>x. key_is_str (list_sort_key (sort_lists_in_plan x))) xs \<Longrightarrow>
     sort_lists_in_plan (JList xs)
       = JList (sort_key (\<lambda>x. key_str (list_sort_key x)) (map sort_lists_in_plan xs))"
  by (simp add: py_sorted_strings list_all_iff Let_def)

lemma canon_list_perm:
  assumes keys: "list_all (\<lambda>x. key_is_str (list_sort_key (sort_lists_in_plan x))) xs"
    and ties: "ties_identical (map sort_lists_in_plan xs)"
    and perm: "mset (map sort_lists_in_plan xs) = mset (map sort_lists_in_plan zs)"
  shows "sort_lists_in_plan (JList xs) = sort_lists_in_plan (JList zs)"
proof -
  from perm have sets: "set (map sort_lists_in_plan xs) = set (map sort_lists_in_plan zs)"
    by (rule mset_eq_setD)
  have keys': "list_all (\<lambda>x. key_is_str (list_sort_key (sort_lists_in_plan x))) zs"
    unfolding list_all_iff
  proof
    fix z assume "z \<in> set zs"
    then have "sort_lists_in_plan z \<in> set (map sort_lists_in_plan xs)"
      using sets by simp
    then obtain x where "x \<in> set xs" "sort_lists_in_plan x = sort_lists_in_plan z" by auto
    with keys show "key_is_str (list_sort_key (sort_lists_in_plan z))"
      by (auto simp: list_all_iff)
  qed
  have inj: "x \<in> set (map sort_lists_in_plan xs) \<Longrightarrow> y \<in> set (map sort_lists_in_plan xs) \<Longrightarrow>
       key_str (list_sort_key x) = key_str (list_sort_key y) \<Longrightarrow> x = y" for x y
  proof -
    assume x: "x \<in> set (map sort_lists_in_plan xs)" and y: "y \<in> set (map sort_lists_in_plan xs)"
      and e: "key_str (list_sort_key x) = key_str (list_sort_key y)"
    from x y keys have "key_is_str (list_sort_key x)" "key_is_str (list_sort_key y)"
      by (auto simp: list_all_iff)
    with e have "list_sort_key x = list_sort_key y"
      by (cases "list_sort_key x"; cases "list_sort_key y") auto
    with ties x y show "x = y"
      unfolding ties_identical_def list_all_iff by blast
  qed
  have "sort_key (\<lambda>x. key_str (list_sort_key x)) (map sort_lists_in_plan xs)
          = sort_key (\<lambda>x. key_str (list_sort_key x)) (map sort_lists_in_plan zs)"
    by (rule sort_key_perm [OF perm]) (rule inj)
  then show ?thesis
    unfolding canon_list_strings [OF keys] canon_list_strings [OF keys'] by simp
qed


lemma insort_key_map_values:
  assumes "\<And>x. fst (G x) = fst x"
  shows "insort_key fst (G x) (map G xs) = map G (insort_key fst x xs)"
  by (induction xs) (simp_all add: assms)

lemma sort_key_map_values:
  assumes "\<And>x. fst (G x) = fst x"
  shows "sort_key fst (map G xs) = map G (sort_key fst xs)"
  by (induction xs) (simp_all add: insort_key_map_values [OF assms])

lemma canon_dict:
  "sort_lists_in_plan (JDict kvs)
     = JDict (sort_key fst (map (\<lambda>(k, v). (k, sort_lists_in_plan v)) kvs))"
proof -
  have "fst ((\<lambda>(k, v). (k, sort_lists_in_plan v)) x) = fst x" for x :: "string \<times> json"
    by (cases x) simp
  then show ?thesis by (simp add: sort_key_map_values)
qed






lemmas canon_eval =
  canonicalize_json_def py_sorted_def comparable_def sort_lt_def str_int_def str_nat.simps digit_char_def json_string_def
  json_escape_char_def Let_def



section \<open>Order independence of the plan hash\<close>

lemma canon_dump_resource:
  "sort_lists_in_plan (dump_resource r) = JDict
     [(''description'', (case res_description r of None \<Rightarrow> JNull | Some d \<Rightarrow> JStr d)),
      (''id'', JStr (res_id r)),
      (''name'', JStr (res_name r)),
      (''properties'', sort_lists_in_plan (JDict (res_properties r))),
      (''type'', JStr (res_type r))]"
  by (simp add: dump_resource_def del: sort_lists_in_plan.simps(1,2) add: canon_dict split: option.splits)

lemma canon_dump_component:
  "sort_lists_in_plan (dump_component c) = JDict
     [(''dependencies'', sort_lists_in_plan (JList (map JStr (comp_dependencies c)))),
      (''id'', JStr (comp_id c)),
      (''name'', JStr (comp_name c)),
      (''path'', JStr (comp_path c)),
      (''resources'', sort_lists_in_plan (JList (map dump_resource (comp_resources c)))),
      (''type'', JStr (comp_type c))]"
  by (simp add: dump_component_def del: sort_lists_in_plan.simps(1,2) add: canon_dict)

lemma canon_dump_relationship:
  "sort_lists_in_plan (dump_relationship r) = JDict
     [(''metadata'', sort_lists_in_plan (JDict (rel_metadata r))),
      (''source'', JStr (rel_source r)),
      (''target'', JStr (rel_target r)),
      (''type'', JStr (rel_type r))]"
  by (simp add: dump_relationship_def del: sort_lists_in_plan.simps(1,2) add: canon_dict)

lemma canon_model_dump:
  "sort_lists_in_plan (model_dump p) = JDict
     [(''components'', sort_lists_in_plan (JList (map dump_component (components p)))),
      (''env_vars'', sort_lists_in_plan (JDict (map (\<lambda>(k, v). (k, JStr v)) (env_vars p)))),
      (''project_name'', JStr (project_name p)),
      (''relationships'', sort_lists_in_plan (JList (map dump_relationship (relationships p)))),
      (''schema_version'', JStr (schema_version p))]"
  by (simp add: model_dump_def del: sort_lists_in_plan.simps(1,2) add: canon_dict)


lemma resources_perm:
  assumes ties: "ties_identical (map (\<lambda>r. sort_lists_in_plan (dump_resource r)) rs)"
    and perm: "mset rs' = mset rs"
  shows "sort_lists_in_plan (JList (map dump_resource rs)) = sort_lists_in_plan (JList (map dump_resource rs'))"
proof (rule canon_list_perm)
  show "list_all (\<lambda>x. key_is_str (list_sort_key (sort_lists_in_plan x))) (map dump_resource rs)"
    by (simp add: list_all_iff canon_dump_resource)
  show "ties_identical (map sort_lists_in_plan (map dump_resource rs))"
    using ties by (simp add: comp_def)
  from perm have "mset (map (\<lambda>r. sort_lists_in_plan (dump_resource r)) rs)
      = mset (map (\<lambda>r. sort_lists_in_plan (dump_resource r)) rs')"
    by (metis mset_map)
  then show "mset (map sort_lists_in_plan (map dump_resource rs)) = mset (map sort_lists_in_plan (map dump_resource rs'))"
    by (simp add: comp_def)
qed

lemma component_reorder_canon:
  assumes "component_reorder c c'"
    and "ties_identical (map (\<lambda>r. sort_lists_in_plan (dump_resource r)) (comp_resources c))"
  shows "sort_lists_in_plan (dump_component c) = sort_lists_in_plan (dump_component c')"
proof -
  from assms(1) have eq: "c' = c\<lparr>comp_resources := comp_resources c'\<rparr>"
    and perm: "mset (comp_resources c') = mset (comp_resources c)"
    by (simp_all add: component_reorder_def)
  from eq have f: "comp_id c' = comp_id c" "comp_name c' = comp_name c" "comp_type c' = comp_type c"
    "comp_path c' = comp_path c" "comp_dependencies c' = comp_dependencies c"
    by (metis component.select_convs component.surjective component.update_convs)+
  from resources_perm [OF assms(2) perm] f show ?thesis
    by (simp only: canon_dump_component)
qed

lemma components_perm:
  assumes ties: "ties_identical (map (\<lambda>c. sort_lists_in_plan (dump_component c)) cs)"
    and rties: "list_all (\<lambda>c. ties_identical (map (\<lambda>r. sort_lists_in_plan (dump_resource r)) (comp_resources c))) cs"
    and re: "list_all2 component_reorder cs cs1"
    and perm: "mset cs1 = mset cs2"
  shows "sort_lists_in_plan (JList (map dump_component cs)) = sort_lists_in_plan (JList (map dump_component cs2))"
proof (rule canon_list_perm)
  show "list_all (\<lambda>x. key_is_str (list_sort_key (sort_lists_in_plan x))) (map dump_component cs)"
    by (simp add: list_all_iff canon_dump_component)
  show "ties_identical (map sort_lists_in_plan (map dump_component cs))"
    using ties by (simp add: comp_def)
  from re rties have "map (\<lambda>c. sort_lists_in_plan (dump_component c)) cs
      = map (\<lambda>c. sort_lists_in_plan (dump_component c)) cs1"
    by (induction cs cs1 rule: list_all2_induct) (auto simp: component_reorder_canon)
  moreover from perm have "mset (map (\<lambda>c. sort_lists_in_plan (dump_component c)) cs1)
      = mset (map (\<lambda>c. sort_lists_in_plan (dump_component c)) cs2)"
    by (metis mset_map)
  ultimately show "mset (map sort_lists_in_plan (map dump_component cs)) = mset (map sort_lists_in_plan (map dump_component cs2))"
    by (simp add: comp_def)
qed

lemma relationships_perm:
  assumes ties: "ties_identical (map (\<lambda>r. sort_lists_in_plan (dump_relationship r)) rs)"
    and perm: "mset rs' = mset rs"
  shows "sort_lists_in_plan (JList (map dump_relationship rs)) = sort_lists_in_plan (JList (map dump_relationship rs'))"
proof (rule canon_list_perm)
  show "list_all (\<lambda>x. key_is_str (list_sort_key (sort_lists_in_plan x))) (map dump_relationship rs)"
    by (simp add: list_all_iff canon_dump_relationship)
  show "ties_identical (map sort_lists_in_plan (map dump_relationship rs))"
    using ties by (simp add: comp_def)
  from perm have "mset (map (\<lambda>r. sort_lists_in_plan (dump_relationship r)) rs)
      = mset (map (\<lambda>r. sort_lists_in_plan (dump_relationship r)) rs')"
    by (metis mset_map)
  then show "mset (map sort_lists_in_plan (map dump_relationship rs)) = mset (map sort_lists_in_plan (map dump_relationship rs'))"
    by (simp add: comp_def)
qed

lemma plan_reorder_text:
  assumes "plan_reorder p p'" and "plan_tie_free p"
  shows "plan_hash_text p = plan_hash_text p'"
proof -
  from assms(1) obtain cs where eq: "p' = p\<lparr>components := components p', relationships := relationships p'\<rparr>"
    and re: "list_all2 component_reorder (components p) cs" and cperm: "mset cs = mset (components p')"
    and rperm: "mset (relationships p') = mset (relationships p)"
    by (auto simp: plan_reorder_def)
  from eq have f: "schema_version p' = schema_version p" "project_name p' = project_name p" "env_vars p' = env_vars p"
    by (metis plan.select_convs plan.surjective plan.update_convs)+
  from assms(2) have t1: "ties_identical (map (\<lambda>c. sort_lists_in_plan (dump_component c)) (components p))"
    and t2: "list_all (\<lambda>c. ties_identical (map (\<lambda>r. sort_lists_in_plan (dump_resource r)) (comp_resources c))) (components p)"
    and t3: "ties_identical (map (\<lambda>r. sort_lists_in_plan (dump_relationship r)) (relationships p))"
    by (simp_all add: plan_tie_free_def)
  from components_perm [OF t1 t2 re cperm] relationships_perm [OF t3 rperm] f
  have "sort_lists_in_plan (model_dump p) = sort_lists_in_plan (model_dump p')"
    by (simp only: canon_model_dump)
  then show ?thesis by (simp add: plan_hash_text_def)
qed

text \<open>
  Claim C1, as the code has it.  Let \<open>p'\<close> be \<open>p\<close> with the components, the resources of
  any component and the relationships reordered, their contents unchanged, and let entries
  of \<open>p\<close> that share a sort key have the same canonical form (no two different components
  share an id, no two different resources of one component share an id).  Then the DFRs of
  \<open>p\<close> and \<open>p'\<close> have the same \<open>plan_hash\<close>, whatever the hash function and the violations.
\<close>

theorem plan_hash_order_independent:
  assumes "plan_reorder p p'" and "plan_tie_free p"
  shows "plan_hash (generate_dfr ENGINE_VERSION sha256_hex p vs)
           = plan_hash (generate_dfr ENGINE_VERSION sha256_hex p' vs')"
  using plan_reorder_text [OF assms] by (simp add: generate_dfr_def Let_def)



lemmas repr_eval =
  repr_str_def repr_quote_def repr_char_def py_printable_def

theorem plan_hash_order_independent_witness:
  "plan_reorder shop_plan shop_plan_reordered
   \<and> plan_tie_free shop_plan
   \<and> plan_hash (generate_dfr ''v1'' (\<lambda>text. text) shop_plan [])
       = plan_hash (generate_dfr ''v1'' (\<lambda>text. text) shop_plan_reordered [])"
proof -
  have cr: "component_reorder
     \<lparr>comp_id = ''api'', comp_name = ''API'', comp_type = ''backend'', comp_path = ''/api'',
      comp_resources = [users_endpoint, orders_endpoint], comp_dependencies = []\<rparr>
     \<lparr>comp_id = ''api'', comp_name = ''API'', comp_type = ''backend'', comp_path = ''/api'',
      comp_resources = [orders_endpoint, users_endpoint], comp_dependencies = []\<rparr>"
    by (simp add: component_reorder_def)
  have cw: "component_reorder web_component web_component"
    by (simp add: component_reorder_def)
  have "list_all2 component_reorder (components shop_plan)
          [web_component,
           \<lparr>comp_id = ''api'', comp_name = ''API'', comp_type = ''backend'', comp_path = ''/api'',
            comp_resources = [orders_endpoint, users_endpoint], comp_dependencies = []\<rparr>]
        \<and> mset [web_component,
           \<lparr>comp_id = ''api'', comp_name = ''API'', comp_type = ''backend'', comp_path = ''/api'',
            comp_resources = [orders_endpoint, users_endpoint], comp_dependencies = []\<rparr>]
          = mset (components shop_plan_reordered)"
    using cr cw by (simp add: shop_plan_def shop_plan_reordered_def)
  then have "\<exists>cs. list_all2 component_reorder (components shop_plan) cs
                \<and> mset cs = mset (components shop_plan_reordered)"
    by blast
  moreover have "shop_plan_reordered
        = shop_plan\<lparr>components := components shop_plan_reordered,
                     relationships := relationships shop_plan_reordered\<rparr>"
    and "mset (relationships shop_plan_reordered) = mset (relationships shop_plan)"
    by (simp_all add: shop_plan_def shop_plan_reordered_def)
  ultimately have r: "plan_reorder shop_plan shop_plan_reordered"
    unfolding plan_reorder_def by blast
  have t: "plan_tie_free shop_plan"
    by (simp add: plan_tie_free_def ties_identical_def shop_plan_def web_component_def
        users_endpoint_def orders_endpoint_def call_users_def call_orders_def
        canon_dump_component canon_dump_resource canon_dump_relationship
        canon_eval repr_eval)
  from plan_hash_order_independent [OF r t] r t show ?thesis by simp
qed

text \<open>
  Claim C1 as stated fails: the sort by \<open>id\<close> is stable.  Two components with the same id
  that differ in their \<open>dependencies\<close> (which the builder does not read, so both orders
  build upper the same graph) stay in declaration order, the hashed texts differ, and so do the
  hashes unless the hash function collides on the two texts.
\<close>

theorem same_id_components_keep_input_order:
  "plan_reorder twins_plan twins_plan_swapped
   \<and> build ascii_upper twins_plan = build ascii_upper twins_plan_swapped
   \<and> plan_hash_text twins_plan \<noteq> plan_hash_text twins_plan_swapped
   \<and> \<not> (\<forall>sha256_hex. plan_hash (generate_dfr ''v1'' sha256_hex twins_plan [])
                        = plan_hash (generate_dfr ''v1'' sha256_hex twins_plan_swapped []))"
proof -
  have "list_all2 component_reorder (components twins_plan) [twin_with_dependency, twin_without_dependency]
        \<and> mset [twin_with_dependency, twin_without_dependency] = mset (components twins_plan_swapped)"
    by (simp add: twins_plan_def twins_plan_swapped_def component_reorder_def)
  then have "\<exists>cs. list_all2 component_reorder (components twins_plan) cs
                \<and> mset cs = mset (components twins_plan_swapped)"
    by blast
  moreover have "twins_plan_swapped
        = twins_plan\<lparr>components := components twins_plan_swapped,
                      relationships := relationships twins_plan_swapped\<rparr>"
    and "mset (relationships twins_plan_swapped) = mset (relationships twins_plan)"
    by (simp_all add: twins_plan_def twins_plan_swapped_def)
  ultimately have r: "plan_reorder twins_plan twins_plan_swapped"
    unfolding plan_reorder_def by blast
  have b: "build ascii_upper twins_plan = build ascii_upper twins_plan_swapped"
    by (simp add: twins_plan_def twins_plan_swapped_def twin_with_dependency_def
        twin_without_dependency_def build_eval graph_eval Let_def)
  have t: "plan_hash_text twins_plan \<noteq> plan_hash_text twins_plan_swapped"
    by (simp add: twins_plan_def twins_plan_swapped_def twin_with_dependency_def
        twin_without_dependency_def plan_hash_text_def model_dump_def dump_component_def
        canon_eval)
  have "plan_hash (generate_dfr ''v1'' (\<lambda>text. text) twins_plan [])
          \<noteq> plan_hash (generate_dfr ''v1'' (\<lambda>text. text) twins_plan_swapped [])"
    using t by (simp add: generate_dfr_def Let_def)
  then have "\<not> (\<forall>sha256_hex. plan_hash (generate_dfr ''v1'' sha256_hex twins_plan [])
                        = plan_hash (generate_dfr ''v1'' sha256_hex twins_plan_swapped []))"
    by blast
  with r b t show ?thesis by blast
qed

section \<open>Properties of the fingerprint\<close>

























end
